theory Spec2Isabelle
  imports Complex_Main "HOL-Library.Word" "HOL-Library.Monad_Syntax" "HOL-Library.Signed_Division"
begin

section \<open>Corrugated-sphere geometry pipeline: the model\<close>

text \<open>
  A shallow embedding of the surface generator \<^verbatim>\<open>CreateSurfaceData\<close> (textured variant,
  with tangents and texture coordinates), of its helpers \<^verbatim>\<open>computeFaceNormalAndArea\<close>,
  \<^verbatim>\<open>computeFaceTangent\<close> and \<^verbatim>\<open>paramToUV\<close>, and of the marker placement
  \<^verbatim>\<open>paramTo3D\<close>.

  Conventions of the model.
  \<^item> A JavaScript number holding a coordinate or an angle is a \<open>real\<close>: arithmetic is
    exact, \<^verbatim>\<open>Math.PI\<close> is \<open>pi\<close>, and the rounding of doubles and of \<^verbatim>\<open>Float32Array\<close>
    stores is not modelled. A resolution read by \<^verbatim>\<open>parseInt\<close> and a lattice index are
    \<open>int\<close>; the running vertex counter is a \<open>nat\<close>; an element of the \<^verbatim>\<open>Uint16Array\<close>
    is a \<open>16 word\<close>.
  \<^item> A three-element array \<^verbatim>\<open>[x, y, z]\<close> is a triple, a two-element array a pair.
  \<^item> Reading an array outside its bounds gives \<^verbatim>\<open>undefined\<close> in JavaScript, and the
    next vector operation on that value throws a \<^verbatim>\<open>TypeError\<close>. Such a read is \<open>None\<close>,
    and the generator returns an \<open>option\<close>: \<open>None\<close> is the uncaught exception.
  \<^item> The two divisions by a resolution, \<^verbatim>\<open>180 / vCount\<close> and \<^verbatim>\<open>360 / uCount\<close>, give
    \<^verbatim>\<open>Infinity\<close> in JavaScript when the resolution is zero, and the single angle of that
    axis is then \<^verbatim>\<open>NaN\<close>; HOL's division gives \<open>0\<close> there. No statement below
    speaks about the value of an angle or of a grid point at a resolution below one.
\<close>

subsection \<open>Vectors and the m4 helpers\<close>

type_synonym vec3 = "real \<times> real \<times> real"
type_synonym vec2 = "real \<times> real"

text \<open>
  The vector helpers \<^verbatim>\<open>m4.*\<close> belong to the webgl-3d-math library, which is not among
  the sources. Five of them are modelled below from the way the specification uses them.
  \<^verbatim>\<open>m4.normalize\<close> is a parameter \<open>normalizeV\<close> of every function that calls it, so
  that what is proved of the generator holds for every normalisation; the specification's
  reading of it is \<open>normalize_spec\<close> further down.
\<close>

text \<open>
  Modelled from the spec: \<^verbatim>\<open>m4.subtractVectors\<close> (library code, not among the sources),
  the componentwise difference \<open>p1 - p0\<close> of the normal and tangent formulas.
\<close>

definition m4_subtractVectors :: "vec3 \<Rightarrow> vec3 \<Rightarrow> vec3" where
  "m4_subtractVectors a b =
     (case a of (a0, a1, a2) \<Rightarrow> case b of (b0, b1, b2) \<Rightarrow> (a0 - b0, a1 - b1, a2 - b2))"

text \<open>
  Modelled from the spec: \<^verbatim>\<open>m4.addVectors\<close> (library code, not among the sources), the
  componentwise sum that accumulates the weighted normals.
\<close>

definition m4_addVectors :: "vec3 \<Rightarrow> vec3 \<Rightarrow> vec3" where
  "m4_addVectors a b =
     (case a of (a0, a1, a2) \<Rightarrow> case b of (b0, b1, b2) \<Rightarrow> (a0 + b0, a1 + b1, a2 + b2))"

text \<open>
  Modelled from the spec: \<^verbatim>\<open>m4.scaleVector\<close> (library code, not among the sources), the
  product \<open>normal * area\<close> of a vector and a number.
\<close>

definition m4_scaleVector :: "vec3 \<Rightarrow> real \<Rightarrow> vec3" where
  "m4_scaleVector v s = (case v of (v0, v1, v2) \<Rightarrow> (v0 * s, v1 * s, v2 * s))"

text \<open>
  Modelled from the spec: \<^verbatim>\<open>m4.cross\<close> (library code, not among the sources), the cross
  product of the two edge vectors.
\<close>

definition m4_cross :: "vec3 \<Rightarrow> vec3 \<Rightarrow> vec3" where
  "m4_cross a b =
     (case a of (a0, a1, a2) \<Rightarrow> case b of (b0, b1, b2) \<Rightarrow>
        (a1 * b2 - a2 * b1, a2 * b0 - a0 * b2, a0 * b1 - a1 * b0))"

text \<open>
  Modelled from the spec: \<^verbatim>\<open>m4.length\<close> (library code, not among the sources), the
  Euclidean norm of the area formula.
\<close>

definition m4_length :: "vec3 \<Rightarrow> real" where
  "m4_length v = (case v of (v0, v1, v2) \<Rightarrow> sqrt (v0 * v0 + v1 * v1 + v2 * v2))"

text \<open>
  Modelled from the spec: \<^verbatim>\<open>m4.normalize\<close> (library code, not among the sources). The
  specification asks for the unit vector of a vector that is not zero, and leaves the
  result on the zero vector to the implementation, as a deterministic fallback that is
  not \<^verbatim>\<open>NaN\<close>; that fallback is the parameter \<open>fallback\<close>.
\<close>

definition normalize_spec :: "vec3 \<Rightarrow> vec3 \<Rightarrow> vec3" where
  "normalize_spec fallback v =
     (if m4_length v = 0 then fallback else m4_scaleVector v (1 / m4_length v))"

subsection \<open>Helpers of the generator\<close>

definition deg2rad :: "real \<Rightarrow> real" where
  "deg2rad angle = angle * pi / 180"

text \<open>
  The replicated render vertex. The fields of the source are \<^verbatim>\<open>x y z nx ny nz tx ty tz u v\<close>;
  they carry the prefix \<open>fv_\<close> here, the bare letters being variable names everywhere else.
\<close>

record FlatVertex =
  fv_x :: real
  fv_y :: real
  fv_z :: real
  fv_nx :: real
  fv_ny :: real
  fv_nz :: real
  fv_tx :: real
  fv_ty :: real
  fv_tz :: real
  fv_u :: real
  fv_v :: real

text \<open>The object \<^verbatim>\<open>{ normal, area }\<close> returned by \<^verbatim>\<open>computeFaceNormalAndArea\<close>.\<close>

record FaceGeometry =
  normal :: vec3
  area :: real

definition computeFaceNormalAndArea ::
  "(vec3 \<Rightarrow> vec3) \<Rightarrow> vec3 \<Rightarrow> vec3 \<Rightarrow> vec3 \<Rightarrow> FaceGeometry" where
  "computeFaceNormalAndArea normalizeV p0 p1 p2 =
     (let u = m4_subtractVectors p1 p0;
          v = m4_subtractVectors p2 p0;
          crossUV = m4_cross u v;
          faceArea = m4_length crossUV * 0.5
      in if faceArea < 1 / 10 ^ 14
         then \<lparr>normal = (0, 0, 1), area = 0\<rparr>
         else \<lparr>normal = normalizeV crossUV, area = faceArea\<rparr>)"

definition computeFaceTangent :: "vec3 \<Rightarrow> vec3 \<Rightarrow> vec3 \<Rightarrow> vec2 \<Rightarrow> vec2 \<Rightarrow> vec2 \<Rightarrow> vec3" where
  "computeFaceTangent p0 p1 p2 uv0 uv1 uv2 =
     (let edge1 = m4_subtractVectors p1 p0;
          edge2 = m4_subtractVectors p2 p0;
          deltaUV1 = (fst uv1 - fst uv0, snd uv1 - snd uv0);
          deltaUV2 = (fst uv2 - fst uv0, snd uv2 - snd uv0);
          f = fst deltaUV1 * snd deltaUV2 - snd deltaUV1 * fst deltaUV2
      in if \<bar>f\<bar> < 1 / 10 ^ 14
         then (1, 0, 0)
         else (let f' = 1 / f;
                   tx = f' * (fst edge1 * snd deltaUV2 - fst edge2 * snd deltaUV1);
                   ty = f' * (fst (snd edge1) * snd deltaUV2 - fst (snd edge2) * snd deltaUV1);
                   tz = f' * (snd (snd edge1) * snd deltaUV2 - snd (snd edge2) * snd deltaUV1)
               in (tx, ty, tz)))"

text \<open>\<^verbatim>\<open>paramTo3D\<close>, the marker placement of the variant with the moving sphere.\<close>

definition paramTo3D :: "real \<Rightarrow> real \<Rightarrow> vec3" where
  "paramTo3D u v =
     (let R = 1; a = 24 / 100; n = 6;
          radial = R * cos v + a * (1 - sin v) * \<bar>cos (n * u)\<bar>;
          x = radial * cos u;
          y = radial * sin u;
          z = R * sin v
      in (x, y, z))"

text \<open>
  The body of the inner closure \<^verbatim>\<open>uRad => { ... return [x, y, z]; }\<close> that
  \<^verbatim>\<open>CreateSurfaceData\<close> maps over the angle arrays; it is the same text in both textured
  variants and in the untextured one.
\<close>

definition gridVertex :: "real \<Rightarrow> real \<Rightarrow> vec3" where
  "gridVertex vRad uRad =
     (let R = 1; a = 24 / 100; n = 6;
          radial = R * cos vRad + a * (1 - sin vRad) * \<bar>cos (n * uRad)\<bar>;
          x = radial * cos uRad;
          y = radial * sin uRad;
          z = R * sin vRad
      in (x, y, z))"

text \<open>
  The surface formula as the specification writes it (section 4.1), with \<open>R = 1.0\<close>,
  \<open>a = 0.24\<close> and \<open>n = 6\<close>; the grid of the generator is compared with it below.
\<close>

definition surfacePoint_spec :: "real \<Rightarrow> real \<Rightarrow> vec3" where
  "surfacePoint_spec u v =
     (let R = 1; a = 24 / 100; n = 6;
          radial = R * cos v + a * (1 - sin v) * \<bar>cos (n * u)\<bar>
      in (radial * cos u, radial * sin u, R * sin v))"

text \<open>
  \<^verbatim>\<open>Array.from({ length: n }, (_, i) => f(i))\<close>: a length that is not positive gives the
  empty array.
\<close>

definition Array_from :: "int \<Rightarrow> (nat \<Rightarrow> 'a) \<Rightarrow> 'a list" where
  "Array_from n f = map f [0..<nat n]"

definition vAnglesOf :: "int \<Rightarrow> real list" where
  "vAnglesOf vCount =
     (let vDegMin = - 90; vDegMax = 90;
          stepV = (vDegMax - vDegMin) / real_of_int vCount
      in Array_from (vCount + 1) (\<lambda>i. deg2rad (vDegMin + real i * stepV)))"

definition uAnglesOf :: "int \<Rightarrow> real list" where
  "uAnglesOf uCount =
     (let uDegMin = 0; uDegMax = 360;
          stepU = (uDegMax - uDegMin) / real_of_int uCount
      in Array_from (uCount + 1) (\<lambda>j. deg2rad (uDegMin + real j * stepU)))"

definition vertexGridOf :: "real list \<Rightarrow> real list \<Rightarrow> vec3 list list" where
  "vertexGridOf vAngles uAngles = map (\<lambda>vRad. map (\<lambda>uRad. gridVertex vRad uRad) uAngles) vAngles"

definition indexOf :: "int \<Rightarrow> int \<Rightarrow> int \<Rightarrow> int" where
  "indexOf uCount iv iu = iv * (uCount + 1) + iu"

text \<open>The two nested \<^verbatim>\<open>for\<close> loops that fill \<^verbatim>\<open>faces\<close>, the inner one first.\<close>

function facesLoop_iu :: "int \<Rightarrow> int \<Rightarrow> int \<Rightarrow> (int \<times> int \<times> int) list \<Rightarrow> (int \<times> int \<times> int) list" where
  "facesLoop_iu uCount iv iu faces =
     (if iu < uCount
      then (let i0 = indexOf uCount iv iu;
                i1 = indexOf uCount iv (iu + 1);
                i2 = indexOf uCount (iv + 1) iu;
                i3 = indexOf uCount (iv + 1) (iu + 1)
            in facesLoop_iu uCount iv (iu + 1) (faces @ [(i0, i2, i1), (i1, i2, i3)]))
      else faces)"
  by pat_completeness auto
termination
  by (relation "measure (\<lambda>(uCount, iv, iu, faces). nat (uCount - iu))") auto

function facesLoop_iv :: "int \<Rightarrow> int \<Rightarrow> int \<Rightarrow> (int \<times> int \<times> int) list \<Rightarrow> (int \<times> int \<times> int) list" where
  "facesLoop_iv uCount vCount iv faces =
     (if iv < vCount
      then facesLoop_iv uCount vCount (iv + 1) (facesLoop_iu uCount iv 0 faces)
      else faces)"
  by pat_completeness auto
termination
  by (relation "measure (\<lambda>(uCount, vCount, iv, faces). nat (vCount - iv))") auto

declare facesLoop_iu.simps [simp del] facesLoop_iv.simps [simp del]

definition facesOf :: "int \<Rightarrow> int \<Rightarrow> (int \<times> int \<times> int) list" where
  "facesOf uCount vCount = facesLoop_iv uCount vCount 0 []"

text \<open>An array read \<^verbatim>\<open>xs[i]\<close>; \<open>None\<close> is \<^verbatim>\<open>undefined\<close>.\<close>

definition js_get :: "'a list \<Rightarrow> int \<Rightarrow> 'a option" where
  "js_get xs i = (if 0 \<le> i \<and> i < int (length xs) then Some (xs ! nat i) else None)"

text \<open>
  \<^verbatim>\<open>xs.forEach(f)\<close> for a callback that updates the captured state \<open>s\<close> and may throw.
\<close>

fun forEach :: "('s \<Rightarrow> 'a \<Rightarrow> 's option) \<Rightarrow> 'a list \<Rightarrow> 's \<Rightarrow> 's option" where
  "forEach f [] s = Some s"
| "forEach f (x # xs) s = (case f s x of None \<Rightarrow> None | Some s' \<Rightarrow> forEach f xs s')"

text \<open>
  The body of \<^verbatim>\<open>[iA, iB, iC].forEach(idx => ...)\<close> in the normal accumulation:
  \<^verbatim>\<open>accumNormals[idx] = m4.addVectors(accumNormals[idx], scaled)\<close>.
\<close>

definition accumCorner :: "vec3 \<Rightarrow> real \<Rightarrow> vec3 list \<Rightarrow> int \<Rightarrow> vec3 list option" where
  "accumCorner faceNormal faceArea accumNormals idx =
     (let scaled = m4_scaleVector faceNormal faceArea
      in do {
        old \<leftarrow> js_get accumNormals idx;
        Some (accumNormals[nat idx := m4_addVectors old scaled])
      })"

text \<open>The body of the first \<^verbatim>\<open>faces.forEach(([iA, iB, iC]) => ...)\<close>.\<close>

definition accumFace ::
  "(vec3 \<Rightarrow> vec3) \<Rightarrow> vec3 list \<Rightarrow> vec3 list \<Rightarrow> (int \<times> int \<times> int) \<Rightarrow> vec3 list option" where
  "accumFace normalizeV flatGrid accumNormals face =
     (case face of (iA, iB, iC) \<Rightarrow> do {
        pA \<leftarrow> js_get flatGrid iA;
        pB \<leftarrow> js_get flatGrid iB;
        pC \<leftarrow> js_get flatGrid iC;
        let fg = computeFaceNormalAndArea normalizeV pA pB pC;
        forEach (accumCorner (normal fg) (area fg)) [iA, iB, iC] accumNormals
      })"

text \<open>
  \<^verbatim>\<open>paramToUV\<close>. An angle read outside the arrays would give \<^verbatim>\<open>NaN\<close> coordinates
  rather than an exception; the model returns \<open>None\<close> there. The generator only calls it
  after the position of the same corner has been read.
\<close>

definition paramToUV :: "real list \<Rightarrow> real list \<Rightarrow> int \<Rightarrow> int \<Rightarrow> vec2 option" where
  "paramToUV vAngles uAngles iv iu = do {
     vRad \<leftarrow> js_get vAngles iv;
     uRad \<leftarrow> js_get uAngles iu;
     let uCoord = uRad / (2 * pi);
     let vCoord = (vRad + pi * 0.5) / pi;
     Some (uCoord, vCoord)
   }"

text \<open>The constructor \<^verbatim>\<open>FlatVertex(px, py, pz, nx, ny, nz, tx, ty, tz, u, v)\<close>.\<close>

definition FlatVertex_new ::
  "real \<Rightarrow> real \<Rightarrow> real \<Rightarrow> real \<Rightarrow> real \<Rightarrow> real \<Rightarrow> real \<Rightarrow> real \<Rightarrow> real \<Rightarrow> real \<Rightarrow> real
     \<Rightarrow> FlatVertex" where
  "FlatVertex_new px py pz nx ny nz tx ty tz u v =
     \<lparr>fv_x = px, fv_y = py, fv_z = pz, fv_nx = nx, fv_ny = ny, fv_nz = nz,
      fv_tx = tx, fv_ty = ty, fv_tz = tz, fv_u = u, fv_v = v\<rparr>"

text \<open>
  The body of the corner loop of the flat replication: one \<^verbatim>\<open>new FlatVertex(...)\<close> is
  pushed, and \<^verbatim>\<open>idxCounter++\<close> is pushed to \<^verbatim>\<open>flatIndices\<close>.
\<close>

definition pushCorner ::
  "FlatVertex list \<times> nat list \<times> nat \<Rightarrow> vec3 \<times> vec3 \<times> vec3 \<times> vec2
     \<Rightarrow> (FlatVertex list \<times> nat list \<times> nat) option" where
  "pushCorner st elem =
     (case st of (flatVertices, flatIndices, idxCounter) \<Rightarrow>
      case elem of (pos, nor, tng, uv) \<Rightarrow>
        Some (flatVertices @
                [FlatVertex_new (fst pos) (fst (snd pos)) (snd (snd pos))
                   (fst nor) (fst (snd nor)) (snd (snd nor))
                   (fst tng) (fst (snd tng)) (snd (snd tng))
                   (fst uv) (snd uv)],
              flatIndices @ [idxCounter],
              idxCounter + 1))"

text \<open>
  \<^verbatim>\<open>Math.floor(i / (uCount + 1))\<close> and \<^verbatim>\<open>i % (uCount + 1)\<close>; the remainder of
  JavaScript takes the sign of the dividend, as \<open>smod\<close> does.
\<close>

definition rowOf :: "int \<Rightarrow> int \<Rightarrow> int" where
  "rowOf uCount i = \<lfloor>real_of_int i / real_of_int (uCount + 1)\<rfloor>"

definition colOf :: "int \<Rightarrow> int \<Rightarrow> int" where
  "colOf uCount i = i smod (uCount + 1)"

text \<open>The body of the second \<^verbatim>\<open>faces.forEach(([iA, iB, iC]) => ...)\<close>.\<close>

definition flatFace ::
  "(vec3 \<Rightarrow> vec3) \<Rightarrow> int \<Rightarrow> real list \<Rightarrow> real list \<Rightarrow> vec3 list \<Rightarrow> vec3 list
     \<Rightarrow> FlatVertex list \<times> nat list \<times> nat \<Rightarrow> (int \<times> int \<times> int)
     \<Rightarrow> (FlatVertex list \<times> nat list \<times> nat) option" where
  "flatFace normalizeV uCount vAngles uAngles flatGrid normalizedNormals st face =
     (case face of (iA, iB, iC) \<Rightarrow> do {
        pA \<leftarrow> js_get flatGrid iA;
        pB \<leftarrow> js_get flatGrid iB;
        pC \<leftarrow> js_get flatGrid iC;
        nA \<leftarrow> js_get normalizedNormals iA;
        nB \<leftarrow> js_get normalizedNormals iB;
        nC \<leftarrow> js_get normalizedNormals iC;
        let sumABC = m4_addVectors (m4_addVectors nA nB) nC;
        let faceNormal = normalizeV sumABC;
        let ivA = rowOf uCount iA;
        let iuA = colOf uCount iA;
        let ivB = rowOf uCount iB;
        let iuB = colOf uCount iB;
        let ivC = rowOf uCount iC;
        let iuC = colOf uCount iC;
        uvA \<leftarrow> paramToUV vAngles uAngles ivA iuA;
        uvB \<leftarrow> paramToUV vAngles uAngles ivB iuB;
        uvC \<leftarrow> paramToUV vAngles uAngles ivC iuC;
        let faceTangent = normalizeV (computeFaceTangent pA pB pC uvA uvB uvC);
        forEach pushCorner
          [(pA, faceNormal, faceTangent, uvA),
           (pB, faceNormal, faceTangent, uvB),
           (pC, faceNormal, faceTangent, uvC)] st
      })"

text \<open>
  The packing loop \<^verbatim>\<open>flatVertices.forEach((fv, i) => ...)\<close> over the four zero-filled
  typed arrays. A store outside a typed array is ignored, as a list update is.
\<close>

fun packLoop ::
  "FlatVertex list \<Rightarrow> nat \<Rightarrow> real list \<times> real list \<times> real list \<times> real list
     \<Rightarrow> real list \<times> real list \<times> real list \<times> real list" where
  "packLoop [] i bufs = bufs"
| "packLoop (fv # fvs) i (positions, normals, tangents, texcoords) =
     packLoop fvs (i + 1)
       (positions[3 * i + 0 := fv_x fv, 3 * i + 1 := fv_y fv, 3 * i + 2 := fv_z fv],
        normals[3 * i + 0 := fv_nx fv, 3 * i + 1 := fv_ny fv, 3 * i + 2 := fv_nz fv],
        tangents[3 * i + 0 := fv_tx fv, 3 * i + 1 := fv_ty fv, 3 * i + 2 := fv_tz fv],
        texcoords[2 * i + 0 := fv_u fv, 2 * i + 1 := fv_v fv])"

text \<open>The five arrays attached to \<^verbatim>\<open>data\<close>.\<close>

record SurfaceData =
  positions :: "real list"
  normals :: "real list"
  tangents :: "real list"
  texcoords :: "real list"
  indices :: "16 word list"

definition CreateSurfaceData :: "(vec3 \<Rightarrow> vec3) \<Rightarrow> int \<Rightarrow> int \<Rightarrow> SurfaceData option" where
  "CreateSurfaceData normalizeV uCount vCount =
     (let vAngles = vAnglesOf vCount;
          uAngles = uAnglesOf uCount;
          vertexGrid = vertexGridOf vAngles uAngles;
          faces = facesOf uCount vCount;
          flatGrid = concat vertexGrid
      in do {
        accumNormals \<leftarrow>
          forEach (accumFace normalizeV flatGrid) faces (map (\<lambda>_. (0, 0, 0)) flatGrid);
        let normalizedNormals = map normalizeV accumNormals;
        (flatVertices, flatIndices, idxCounter) \<leftarrow>
          forEach (flatFace normalizeV uCount vAngles uAngles flatGrid normalizedNormals)
            faces ([], [], 0);
        let n = length flatVertices;
        let (positions, normals, tangents, texcoords) =
          packLoop flatVertices 0
            (replicate (n * 3) 0, replicate (n * 3) 0, replicate (n * 3) 0, replicate (n * 2) 0);
        Some \<lparr>positions = positions, normals = normals, tangents = tangents,
              texcoords = texcoords, indices = map of_nat flatIndices\<rparr>
      })"

section \<open>Closed forms of the stages\<close>

text \<open>
  The functions of this section are not in the source. They give each stage of the
  generator in closed form: the faces of one cell and of one row, the lattice range of
  an index, the three replicated vertices of one face, and the packed buffers of a list of
  vertices. The lemmas of the next section prove that the loops of the generator compute
  them.
\<close>

definition cellFaces :: "int \<Rightarrow> int \<Rightarrow> int \<Rightarrow> (int \<times> int \<times> int) list" where
  "cellFaces uCount iv iu =
     [(indexOf uCount iv iu, indexOf uCount (iv + 1) iu, indexOf uCount iv (iu + 1)),
      (indexOf uCount iv (iu + 1), indexOf uCount (iv + 1) iu, indexOf uCount (iv + 1) (iu + 1))]"

definition rowFaces :: "int \<Rightarrow> int \<Rightarrow> (int \<times> int \<times> int) list" where
  "rowFaces uCount iv = concat (map (cellFaces uCount iv) [0..uCount - 1])"

definition inLattice :: "int \<Rightarrow> int \<Rightarrow> int \<Rightarrow> bool" where
  "inLattice uCount vCount i = (0 \<le> i \<and> i < (uCount + 1) * (vCount + 1))"

definition faceInLattice :: "int \<Rightarrow> int \<Rightarrow> (int \<times> int \<times> int) \<Rightarrow> bool" where
  "faceInLattice uCount vCount face =
     (case face of (iA, iB, iC) \<Rightarrow>
        inLattice uCount vCount iA \<and> inLattice uCount vCount iB \<and> inLattice uCount vCount iC)"

definition uvAt :: "real list \<Rightarrow> real list \<Rightarrow> int \<Rightarrow> int \<Rightarrow> vec2" where
  "uvAt vAngles uAngles uCount i =
     (uAngles ! nat (colOf uCount i) / (2 * pi),
      (vAngles ! nat (rowOf uCount i) + pi * 0.5) / pi)"

definition cornerVertex :: "vec3 \<Rightarrow> vec3 \<Rightarrow> vec3 \<Rightarrow> vec2 \<Rightarrow> FlatVertex" where
  "cornerVertex pos nor tng uv =
     FlatVertex_new (fst pos) (fst (snd pos)) (snd (snd pos))
       (fst nor) (fst (snd nor)) (snd (snd nor))
       (fst tng) (fst (snd tng)) (snd (snd tng))
       (fst uv) (snd uv)"

definition faceNormalOf :: "(vec3 \<Rightarrow> vec3) \<Rightarrow> vec3 list \<Rightarrow> (int \<times> int \<times> int) \<Rightarrow> vec3" where
  "faceNormalOf normalizeV normalizedNormals face =
     (case face of (iA, iB, iC) \<Rightarrow>
        normalizeV (m4_addVectors
          (m4_addVectors (normalizedNormals ! nat iA) (normalizedNormals ! nat iB))
          (normalizedNormals ! nat iC)))"

definition faceTangentOf ::
  "(vec3 \<Rightarrow> vec3) \<Rightarrow> int \<Rightarrow> real list \<Rightarrow> real list \<Rightarrow> vec3 list \<Rightarrow> (int \<times> int \<times> int) \<Rightarrow> vec3" where
  "faceTangentOf normalizeV uCount vAngles uAngles flatGrid face =
     (case face of (iA, iB, iC) \<Rightarrow>
        normalizeV (computeFaceTangent
          (flatGrid ! nat iA) (flatGrid ! nat iB) (flatGrid ! nat iC)
          (uvAt vAngles uAngles uCount iA) (uvAt vAngles uAngles uCount iB)
          (uvAt vAngles uAngles uCount iC)))"

definition faceVertices ::
  "(vec3 \<Rightarrow> vec3) \<Rightarrow> int \<Rightarrow> real list \<Rightarrow> real list \<Rightarrow> vec3 list \<Rightarrow> vec3 list
     \<Rightarrow> (int \<times> int \<times> int) \<Rightarrow> FlatVertex list" where
  "faceVertices normalizeV uCount vAngles uAngles flatGrid normalizedNormals face =
     map (\<lambda>i. cornerVertex (flatGrid ! nat i)
                (faceNormalOf normalizeV normalizedNormals face)
                (faceTangentOf normalizeV uCount vAngles uAngles flatGrid face)
                (uvAt vAngles uAngles uCount i))
       (case face of (iA, iB, iC) \<Rightarrow> [iA, iB, iC])"

definition posOf :: "FlatVertex \<Rightarrow> real list" where
  "posOf fv = [fv_x fv, fv_y fv, fv_z fv]"

definition norOf :: "FlatVertex \<Rightarrow> real list" where
  "norOf fv = [fv_nx fv, fv_ny fv, fv_nz fv]"

definition tanOf :: "FlatVertex \<Rightarrow> real list" where
  "tanOf fv = [fv_tx fv, fv_ty fv, fv_tz fv]"

definition uvOf :: "FlatVertex \<Rightarrow> real list" where
  "uvOf fv = [fv_u fv, fv_v fv]"

definition packed :: "FlatVertex list \<Rightarrow> SurfaceData" where
  "packed fvs =
     \<lparr>positions = concat (map posOf fvs), normals = concat (map norOf fvs),
      tangents = concat (map tanOf fvs), texcoords = concat (map uvOf fvs),
      indices = map of_nat [0..<length fvs]\<rparr>"

definition flatVerticesOf :: "(vec3 \<Rightarrow> vec3) \<Rightarrow> int \<Rightarrow> int \<Rightarrow> vec3 list \<Rightarrow> FlatVertex list" where
  "flatVerticesOf normalizeV uCount vCount accumNormals =
     concat (map (faceVertices normalizeV uCount (vAnglesOf vCount) (uAnglesOf uCount)
                    (concat (vertexGridOf (vAnglesOf vCount) (uAnglesOf uCount)))
                    (map normalizeV accumNormals))
               (facesOf uCount vCount))"

section \<open>The loops compute the closed forms\<close>

lemma length_concat_blocks:
  "\<forall>xs\<in>set xss. length xs = n \<Longrightarrow> length (concat xss) = length xss * n"
  by (induction xss) auto

lemma nth_concat_blocks:
  "\<forall>xs\<in>set xss. length xs = n \<Longrightarrow> i < length xss \<Longrightarrow> j < n
     \<Longrightarrow> concat xss ! (i * n + j) = xss ! i ! j"
proof (induction xss arbitrary: i)
  case Nil
  then show ?case by simp
next
  case (Cons xs xss)
  show ?case
  proof (cases i)
    case 0
    with Cons.prems show ?thesis by (simp add: nth_append)
  next
    case (Suc k)
    with Cons.prems have "concat xss ! (k * n + j) = xss ! k ! j"
      by (intro Cons.IH) auto
    moreover have "Suc k * n + j = length xs + (k * n + j)"
      using Cons.prems by simp
    ultimately show ?thesis using Suc
      by (simp only: concat.simps nth_append_length_plus nth_Cons_Suc)
  qed
qed

lemma facesLoop_iu_eq:
  "facesLoop_iu uCount iv iu faces = faces @ concat (map (cellFaces uCount iv) [iu..uCount - 1])"
proof (induction uCount iv iu faces rule: facesLoop_iu.induct)
  case (1 uCount iv iu faces)
  show ?case
  proof (cases "iu < uCount")
    case True
    have c: "[(indexOf uCount iv iu, indexOf uCount (iv + 1) iu, indexOf uCount iv (iu + 1)),
              (indexOf uCount iv (iu + 1), indexOf uCount (iv + 1) iu,
               indexOf uCount (iv + 1) (iu + 1))] = cellFaces uCount iv iu"
      by (simp add: cellFaces_def)
    have "facesLoop_iu uCount iv iu faces
            = facesLoop_iu uCount iv (iu + 1) (faces @ cellFaces uCount iv iu)"
      by (subst facesLoop_iu.simps) (simp only: True if_True Let_def c)
    also have "\<dots> = (faces @ cellFaces uCount iv iu)
                        @ concat (map (cellFaces uCount iv) [iu + 1..uCount - 1])"
      using "1.IH" [OF True refl refl refl refl] by (simp only: c)
    also have "\<dots> = faces @ concat (map (cellFaces uCount iv) [iu..uCount - 1])"
      using True by (simp add: upto_rec1 [of iu "uCount - 1"])
    finally show ?thesis .
  next
    case False
    then show ?thesis
      by (subst facesLoop_iu.simps) simp
  qed
qed

lemma facesLoop_iu_row: "facesLoop_iu uCount iv 0 faces = faces @ rowFaces uCount iv"
  by (simp only: facesLoop_iu_eq rowFaces_def)

lemma facesLoop_iv_eq:
  "facesLoop_iv uCount vCount iv faces = faces @ concat (map (rowFaces uCount) [iv..vCount - 1])"
proof (induction uCount vCount iv faces rule: facesLoop_iv.induct)
  case (1 uCount vCount iv faces)
  show ?case
  proof (cases "iv < vCount")
    case True
    have "facesLoop_iv uCount vCount iv faces
            = facesLoop_iv uCount vCount (iv + 1) (faces @ rowFaces uCount iv)"
      by (subst facesLoop_iv.simps) (simp only: True if_True facesLoop_iu_row)
    also have "\<dots> = (faces @ rowFaces uCount iv)
                        @ concat (map (rowFaces uCount) [iv + 1..vCount - 1])"
      using "1.IH" [OF True] by (simp only: facesLoop_iu_row)
    also have "\<dots> = faces @ concat (map (rowFaces uCount) [iv..vCount - 1])"
      using True by (simp add: upto_rec1 [of iv "vCount - 1"])
    finally show ?thesis .
  next
    case False
    then show ?thesis
      by (subst facesLoop_iv.simps) simp
  qed
qed

lemma facesOf_eq: "facesOf uCount vCount = concat (map (rowFaces uCount) [0..vCount - 1])"
  by (simp add: facesOf_def facesLoop_iv_eq)

lemma length_rowFaces: "length (rowFaces uCount iv) = 2 * nat uCount"
  by (simp add: rowFaces_def length_concat_blocks [where n = 2] cellFaces_def)

lemma length_facesOf: "length (facesOf uCount vCount) = 2 * nat uCount * nat vCount"
  by (simp add: facesOf_eq length_concat_blocks [where n = "2 * nat uCount"] length_rowFaces)

lemma facesOf_nth:
  assumes "0 \<le> iv" "iv < vCount" "0 \<le> iu" "iu < uCount" "j < 2"
  shows "facesOf uCount vCount ! (nat iv * (2 * nat uCount) + (nat iu * 2 + j))
           = cellFaces uCount iv iu ! j"
proof -
  have "facesOf uCount vCount ! (nat iv * (2 * nat uCount) + (nat iu * 2 + j))
          = map (rowFaces uCount) [0..vCount - 1] ! nat iv ! (nat iu * 2 + j)"
    unfolding facesOf_eq using assms
    by (intro nth_concat_blocks) (auto simp: length_rowFaces)
  also have "\<dots> = rowFaces uCount iv ! (nat iu * 2 + j)"
    using assms by simp
  also have "\<dots> = map (cellFaces uCount iv) [0..uCount - 1] ! nat iu ! j"
    unfolding rowFaces_def using assms
    by (intro nth_concat_blocks) (auto simp: cellFaces_def)
  also have "\<dots> = cellFaces uCount iv iu ! j"
    using assms by simp
  finally show ?thesis .
qed

lemma length_vAnglesOf: "length (vAnglesOf vCount) = nat (vCount + 1)"
  by (simp add: vAnglesOf_def Array_from_def)

lemma length_uAnglesOf: "length (uAnglesOf uCount) = nat (uCount + 1)"
  by (simp add: uAnglesOf_def Array_from_def)

lemma length_flatGrid:
  "length (concat (vertexGridOf vAngles uAngles)) = length vAngles * length uAngles"
  by (simp add: vertexGridOf_def length_concat_blocks [where n = "length uAngles"])

lemma flatGrid_nth:
  assumes "r < length vAngles" "c < length uAngles"
  shows "concat (vertexGridOf vAngles uAngles) ! (r * length uAngles + c)
           = gridVertex (vAngles ! r) (uAngles ! c)"
proof -
  have "concat (vertexGridOf vAngles uAngles) ! (r * length uAngles + c)
          = vertexGridOf vAngles uAngles ! r ! c"
    using assms by (intro nth_concat_blocks) (auto simp: vertexGridOf_def)
  also have "\<dots> = gridVertex (vAngles ! r) (uAngles ! c)"
    using assms by (simp add: vertexGridOf_def)
  finally show ?thesis .
qed

lemma indexOf_inLattice:
  assumes "0 \<le> r" "r \<le> vCount" "0 \<le> c" "c \<le> uCount"
  shows "inLattice uCount vCount (indexOf uCount r c)"
proof -
  have "0 \<le> r * (uCount + 1)" using assms by simp
  moreover have "r * (uCount + 1) \<le> vCount * (uCount + 1)"
    using assms by (intro mult_right_mono) auto
  moreover have "(uCount + 1) * (vCount + 1) = vCount * (uCount + 1) + uCount + 1"
    by (simp add: algebra_simps)
  ultimately show ?thesis
    using assms unfolding inLattice_def indexOf_def by linarith
qed

lemma set_facesOf:
  "face \<in> set (facesOf uCount vCount)
     \<longleftrightarrow> (\<exists>iv iu. 0 \<le> iv \<and> iv < vCount \<and> 0 \<le> iu \<and> iu < uCount
                   \<and> face \<in> set (cellFaces uCount iv iu))"
proof -
  have "face \<in> set (facesOf uCount vCount)
          \<longleftrightarrow> (\<exists>iv\<in>{0..vCount - 1}. \<exists>iu\<in>{0..uCount - 1}. face \<in> set (cellFaces uCount iv iu))"
    by (simp add: facesOf_eq rowFaces_def)
  also have "\<dots> \<longleftrightarrow> (\<exists>iv iu. 0 \<le> iv \<and> iv < vCount \<and> 0 \<le> iu \<and> iu < uCount
                   \<and> face \<in> set (cellFaces uCount iv iu))"
    unfolding Bex_def atLeastAtMost_iff by (intro ex_cong1 iffI) auto
  finally show ?thesis .
qed

lemma facesOf_inLattice:
  assumes "face \<in> set (facesOf uCount vCount)"
  shows "faceInLattice uCount vCount face"
proof -
  from assms obtain iv iu where b: "0 \<le> iv" "iv < vCount" "0 \<le> iu" "iu < uCount"
    and f: "face \<in> set (cellFaces uCount iv iu)"
    by (auto simp: set_facesOf)
  have "inLattice uCount vCount (indexOf uCount iv iu)"
       "inLattice uCount vCount (indexOf uCount iv (iu + 1))"
       "inLattice uCount vCount (indexOf uCount (iv + 1) iu)"
       "inLattice uCount vCount (indexOf uCount (iv + 1) (iu + 1))"
    using b by (auto intro!: indexOf_inLattice)
  with f show ?thesis
    by (auto simp: cellFaces_def faceInLattice_def)
qed

lemma facesOf_empty: "uCount < 1 \<or> vCount < 1 \<Longrightarrow> facesOf uCount vCount = []"
  using length_facesOf [of uCount vCount] by auto

lemma rowOf_div: "rowOf uCount i = i div (uCount + 1)"
  unfolding rowOf_def by (rule floor_divide_of_int_eq)

lemma colOf_mod: "0 \<le> i \<Longrightarrow> 0 \<le> uCount \<Longrightarrow> colOf uCount i = i mod (uCount + 1)"
  by (simp add: colOf_def signed_modulo_int_def sgn_if)

lemma inLattice_row:
  assumes "inLattice uCount vCount i" "0 \<le> uCount"
  shows "0 \<le> rowOf uCount i \<and> rowOf uCount i \<le> vCount"
proof -
  have lt: "i < (uCount + 1) * (vCount + 1)" and nn: "0 \<le> i"
    using assms by (simp_all add: inLattice_def)
  have d: "0 < uCount + 1" using assms by simp
  have le: "(uCount + 1) * (i div (uCount + 1)) \<le> i"
    using pos_mod_sign [OF d, of i] mult_div_mod_eq [of "uCount + 1" i] by linarith
  have "i div (uCount + 1) < vCount + 1"
  proof (rule ccontr)
    assume "\<not> i div (uCount + 1) < vCount + 1"
    then have "(uCount + 1) * (vCount + 1) \<le> (uCount + 1) * (i div (uCount + 1))"
      using d by (intro mult_left_mono) auto
    with le lt show False by linarith
  qed
  moreover have "0 \<le> i div (uCount + 1)"
    using nn d by (simp add: pos_imp_zdiv_nonneg_iff)
  ultimately show ?thesis by (simp add: rowOf_div)
qed

lemma inLattice_col:
  assumes "inLattice uCount vCount i" "0 \<le> uCount"
  shows "0 \<le> colOf uCount i \<and> colOf uCount i \<le> uCount"
proof -
  have "0 < uCount + 1" using assms by simp
  then have "0 \<le> i mod (uCount + 1)" "i mod (uCount + 1) < uCount + 1"
    by (rule pos_mod_sign, rule pos_mod_bound)
  then show ?thesis
    using assms by (simp add: colOf_mod inLattice_def)
qed

lemma rowOf_indexOf: "0 \<le> c \<Longrightarrow> c \<le> uCount \<Longrightarrow> rowOf uCount (indexOf uCount r c) = r"
  by (simp add: rowOf_div indexOf_def)

lemma colOf_indexOf:
  "0 \<le> r \<Longrightarrow> 0 \<le> c \<Longrightarrow> c \<le> uCount \<Longrightarrow> colOf uCount (indexOf uCount r c) = c"
  by (subst colOf_mod) (simp_all add: indexOf_def)

lemma js_get_Some: "0 \<le> i \<Longrightarrow> i < int (length xs) \<Longrightarrow> js_get xs i = Some (xs ! nat i)"
  by (simp add: js_get_def)

lemma forEach_append:
  "forEach f (xs @ ys) s = (case forEach f xs s of None \<Rightarrow> None | Some s' \<Rightarrow> forEach f ys s')"
  by (induction xs arbitrary: s) (auto split: option.splits)

lemma accumCorner_Some:
  assumes "0 \<le> idx" "idx < int (length acc)"
  shows "\<exists>acc'. accumCorner n a acc idx = Some acc' \<and> length acc' = length acc"
  using assms by (simp add: accumCorner_def js_get_Some)

lemma accumFace_Some:
  assumes "0 \<le> iA" "iA < int (length flatGrid)" "0 \<le> iB" "iB < int (length flatGrid)"
    "0 \<le> iC" "iC < int (length flatGrid)" "length acc = length flatGrid"
  shows "\<exists>acc'. accumFace normalizeV flatGrid acc (iA, iB, iC) = Some acc'
           \<and> length acc' = length flatGrid"
proof -
  let ?fg = "computeFaceNormalAndArea normalizeV (flatGrid ! nat iA) (flatGrid ! nat iB)
               (flatGrid ! nat iC)"
  obtain a1 where a1: "accumCorner (normal ?fg) (area ?fg) acc iA = Some a1"
    "length a1 = length flatGrid"
    using accumCorner_Some [where idx = iA and acc = acc and n = "normal ?fg" and a = "area ?fg"] assms
    by auto
  obtain a2 where a2: "accumCorner (normal ?fg) (area ?fg) a1 iB = Some a2"
    "length a2 = length flatGrid"
    using accumCorner_Some [where idx = iB and acc = a1 and n = "normal ?fg" and a = "area ?fg"] assms a1
    by auto
  obtain a3 where a3: "accumCorner (normal ?fg) (area ?fg) a2 iC = Some a3"
    "length a3 = length flatGrid"
    using accumCorner_Some [where idx = iC and acc = a2 and n = "normal ?fg" and a = "area ?fg"] assms a2
    by auto
  show ?thesis
    using assms a1 a2 a3 by (simp add: accumFace_def js_get_Some)
qed

lemma forEach_accumFace:
  assumes "\<forall>face\<in>set faces. faceInLattice uCount vCount face"
    "int (length flatGrid) = (uCount + 1) * (vCount + 1)" "length acc = length flatGrid"
  shows "\<exists>acc'. forEach (accumFace normalizeV flatGrid) faces acc = Some acc'
           \<and> length acc' = length flatGrid"
  using assms
proof (induction faces arbitrary: acc)
  case Nil
  then show ?case by simp
next
  case (Cons face faces)
  obtain iA iB iC where face: "face = (iA, iB, iC)" by (cases face) auto
  from Cons.prems face obtain acc1 where
    s: "accumFace normalizeV flatGrid acc face = Some acc1" "length acc1 = length flatGrid"
    using accumFace_Some [of iA flatGrid iB iC acc normalizeV]
    by (auto simp: faceInLattice_def inLattice_def)
  from Cons.IH [of acc1] Cons.prems s show ?case by simp
qed

lemma paramToUV_Some:
  assumes "0 \<le> iv" "iv < int (length vAngles)" "0 \<le> iu" "iu < int (length uAngles)"
  shows "paramToUV vAngles uAngles iv iu
           = Some (uAngles ! nat iu / (2 * pi), (vAngles ! nat iv + pi * 0.5) / pi)"
  using assms by (simp add: paramToUV_def js_get_Some)

lemma paramToUV_uvAt:
  assumes "inLattice uCount vCount i" "0 \<le> uCount" "0 \<le> vCount"
    "length vAngles = nat (vCount + 1)" "length uAngles = nat (uCount + 1)"
  shows "paramToUV vAngles uAngles (rowOf uCount i) (colOf uCount i)
           = Some (uvAt vAngles uAngles uCount i)"
  using inLattice_row [OF assms(1,2)] inLattice_col [OF assms(1,2)] assms(2-)
  by (simp add: paramToUV_Some uvAt_def)

lemma forEach_pushCorner3:
  "forEach pushCorner [(pA, nA, tA, uvA), (pB, nB, tB, uvB), (pC, nC, tC, uvC)] (fvs, fis, n)
     = Some (fvs @ [cornerVertex pA nA tA uvA, cornerVertex pB nB tB uvB,
                    cornerVertex pC nC tC uvC],
             fis @ [n, n + 1, n + 2], n + 3)"
  by (simp add: pushCorner_def cornerVertex_def)

lemma flatFace_Some:
  assumes "faceInLattice uCount vCount face" "0 \<le> uCount" "0 \<le> vCount"
    "int (length flatGrid) = (uCount + 1) * (vCount + 1)"
    "length normalizedNormals = length flatGrid"
    "length vAngles = nat (vCount + 1)" "length uAngles = nat (uCount + 1)"
  shows "flatFace normalizeV uCount vAngles uAngles flatGrid normalizedNormals (fvs, fis, n) face
           = Some (fvs @ faceVertices normalizeV uCount vAngles uAngles flatGrid
                           normalizedNormals face,
                   fis @ [n, n + 1, n + 2], n + 3)"
proof -
  obtain iA iB iC where face: "face = (iA, iB, iC)" by (cases face) auto
  have l: "inLattice uCount vCount iA" "inLattice uCount vCount iB" "inLattice uCount vCount iC"
    using assms(1) by (simp_all add: face faceInLattice_def)
  have g: "js_get flatGrid iA = Some (flatGrid ! nat iA)"
          "js_get flatGrid iB = Some (flatGrid ! nat iB)"
          "js_get flatGrid iC = Some (flatGrid ! nat iC)"
          "js_get normalizedNormals iA = Some (normalizedNormals ! nat iA)"
          "js_get normalizedNormals iB = Some (normalizedNormals ! nat iB)"
          "js_get normalizedNormals iC = Some (normalizedNormals ! nat iC)"
    using l assms(4,5) by (simp_all add: js_get_Some inLattice_def)
  have uv: "paramToUV vAngles uAngles (rowOf uCount iA) (colOf uCount iA)
              = Some (uvAt vAngles uAngles uCount iA)"
           "paramToUV vAngles uAngles (rowOf uCount iB) (colOf uCount iB)
              = Some (uvAt vAngles uAngles uCount iB)"
           "paramToUV vAngles uAngles (rowOf uCount iC) (colOf uCount iC)
              = Some (uvAt vAngles uAngles uCount iC)"
    using l assms(2,3,6,7) by (simp_all add: paramToUV_uvAt)
  show ?thesis
    unfolding flatFace_def face
    by (simp add: g uv forEach_pushCorner3 faceVertices_def faceNormalOf_def faceTangentOf_def
          Let_def del: forEach.simps)
qed

lemma length_faceVertices [simp]:
  "length (faceVertices normalizeV uCount vAngles uAngles flatGrid normalizedNormals face) = 3"
  by (cases face) (simp add: faceVertices_def)

lemma forEach_flatFace:
  assumes "\<forall>face\<in>set faces. faceInLattice uCount vCount face" "0 \<le> uCount" "0 \<le> vCount"
    "int (length flatGrid) = (uCount + 1) * (vCount + 1)"
    "length normalizedNormals = length flatGrid"
    "length vAngles = nat (vCount + 1)" "length uAngles = nat (uCount + 1)"
  shows "forEach (flatFace normalizeV uCount vAngles uAngles flatGrid normalizedNormals) faces
           (fvs, fis, n)
         = Some (fvs @ concat (map (faceVertices normalizeV uCount vAngles uAngles flatGrid
                                      normalizedNormals) faces),
                 fis @ [n..<n + 3 * length faces], n + 3 * length faces)"
  using assms(1)
proof (induction faces arbitrary: fvs fis n)
  case Nil
  then show ?case by simp
next
  case (Cons face faces)
  have "[n..<n + 3] = [n, n + 1, n + 2]"
    by (simp add: upt_conv_Cons)
  moreover have "[n..<n + 3 + 3 * length faces] = [n..<n + 3] @ [n + 3..<n + 3 + 3 * length faces]"
    by (rule upt_add_eq_append) simp
  moreover have "n + 3 * length (face # faces) = n + 3 + 3 * length faces"
    by simp
  ultimately have u: "[n..<n + 3 * length (face # faces)]
                        = [n, n + 1, n + 2] @ [n + 3..<n + 3 + 3 * length faces]"
    by (simp only:)
  have "faceInLattice uCount vCount face" using Cons.prems by simp
  note step = flatFace_Some [OF this assms(2-), of normalizeV fvs fis n]
  have "\<forall>face\<in>set faces. faceInLattice uCount vCount face" using Cons.prems by simp
  note rest = Cons.IH [OF this]
  show ?case
    by (simp only: forEach.simps step option.case rest u concat.simps list.map append_assoc)
       (simp add: add.assoc)
qed

lemma take3_update:
  assumes "3 * (i + 1) \<le> length xs"
  shows "take (3 * (i + 1)) (xs[3 * i + 0 := a, 3 * i + 1 := b, 3 * i + 2 := c])
           = take (3 * i) xs @ [a, b, c]"
proof -
  let ?ys = "xs[3 * i + 0 := a, 3 * i + 1 := b, 3 * i + 2 := c]"
  have "take (3 * (i + 1)) ?ys = take (Suc (Suc (Suc (3 * i)))) ?ys"
    by (simp add: numeral_3_eq_3)
  also have "\<dots> = take (3 * i) ?ys @ [?ys ! (3 * i), ?ys ! (3 * i + 1), ?ys ! (3 * i + 2)]"
    using assms by (simp add: take_Suc_conv_app_nth)
  also have "\<dots> = take (3 * i) xs @ [a, b, c]"
    using assms by simp
  finally show ?thesis .
qed

lemma take2_update:
  assumes "2 * (i + 1) \<le> length xs"
  shows "take (2 * (i + 1)) (xs[2 * i + 0 := a, 2 * i + 1 := b]) = take (2 * i) xs @ [a, b]"
proof -
  let ?ys = "xs[2 * i + 0 := a, 2 * i + 1 := b]"
  have "take (2 * (i + 1)) ?ys = take (Suc (Suc (2 * i))) ?ys"
    by simp
  also have "\<dots> = take (2 * i) ?ys @ [?ys ! (2 * i), ?ys ! (2 * i + 1)]"
    using assms by (simp add: take_Suc_conv_app_nth)
  also have "\<dots> = take (2 * i) xs @ [a, b]"
    using assms by simp
  finally show ?thesis .
qed

lemma packLoop_eq:
  assumes "length ps = 3 * (i + length fvs)" "length ns = 3 * (i + length fvs)"
    "length ts = 3 * (i + length fvs)" "length tcs = 2 * (i + length fvs)"
  shows "packLoop fvs i (ps, ns, ts, tcs)
           = (take (3 * i) ps @ concat (map posOf fvs), take (3 * i) ns @ concat (map norOf fvs),
              take (3 * i) ts @ concat (map tanOf fvs), take (2 * i) tcs @ concat (map uvOf fvs))"
  using assms
proof (induction fvs arbitrary: i ps ns ts tcs)
  case Nil
  then show ?case by simp
next
  case (Cons fv fvs)
  let ?ps = "ps[3 * i + 0 := fv_x fv, 3 * i + 1 := fv_y fv, 3 * i + 2 := fv_z fv]"
  let ?ns = "ns[3 * i + 0 := fv_nx fv, 3 * i + 1 := fv_ny fv, 3 * i + 2 := fv_nz fv]"
  let ?ts = "ts[3 * i + 0 := fv_tx fv, 3 * i + 1 := fv_ty fv, 3 * i + 2 := fv_tz fv]"
  let ?tcs = "tcs[2 * i + 0 := fv_u fv, 2 * i + 1 := fv_v fv]"
  have b: "3 * (i + 1) \<le> length ps" "3 * (i + 1) \<le> length ns" "3 * (i + 1) \<le> length ts"
    "2 * (i + 1) \<le> length tcs"
    using Cons.prems by simp_all
  have t: "take (3 * (i + 1)) ?ps = take (3 * i) ps @ posOf fv"
          "take (3 * (i + 1)) ?ns = take (3 * i) ns @ norOf fv"
          "take (3 * (i + 1)) ?ts = take (3 * i) ts @ tanOf fv"
          "take (2 * (i + 1)) ?tcs = take (2 * i) tcs @ uvOf fv"
    unfolding posOf_def norOf_def tanOf_def uvOf_def
    by (rule take3_update [OF b(1)], rule take3_update [OF b(2)], rule take3_update [OF b(3)],
        rule take2_update [OF b(4)])
  have "packLoop fvs (i + 1) (?ps, ?ns, ?ts, ?tcs)
          = (take (3 * (i + 1)) ?ps @ concat (map posOf fvs),
             take (3 * (i + 1)) ?ns @ concat (map norOf fvs),
             take (3 * (i + 1)) ?ts @ concat (map tanOf fvs),
             take (2 * (i + 1)) ?tcs @ concat (map uvOf fvs))"
    using Cons.prems by (intro Cons.IH) simp_all
  then show ?case
    by (simp only: packLoop.simps t) simp
qed

lemma packLoop_zero:
  "packLoop fvs 0
     (replicate (length fvs * 3) 0, replicate (length fvs * 3) 0, replicate (length fvs * 3) 0,
      replicate (length fvs * 2) 0)
   = (concat (map posOf fvs), concat (map norOf fvs), concat (map tanOf fvs),
      concat (map uvOf fvs))"
  by (subst packLoop_eq) simp_all

lemma CreateSurfaceData_empty:
  assumes "uCount < 1 \<or> vCount < 1"
  shows "CreateSurfaceData normalizeV uCount vCount = Some (packed [])"
  using facesOf_empty [OF assms]
  by (simp add: CreateSurfaceData_def packed_def Let_def)

lemma CreateSurfaceData_char:
  assumes "1 \<le> uCount" "1 \<le> vCount"
  shows "\<exists>accumNormals.
           int (length accumNormals) = (uCount + 1) * (vCount + 1)
           \<and> forEach (accumFace normalizeV (concat (vertexGridOf (vAnglesOf vCount) (uAnglesOf uCount))))
                 (facesOf uCount vCount)
                 (map (\<lambda>_. (0, 0, 0)) (concat (vertexGridOf (vAnglesOf vCount) (uAnglesOf uCount))))
               = Some accumNormals
           \<and> CreateSurfaceData normalizeV uCount vCount
               = Some (packed (flatVerticesOf normalizeV uCount vCount accumNormals))"
proof -
  let ?vA = "vAnglesOf vCount" and ?uA = "uAnglesOf uCount"
  let ?flat = "concat (vertexGridOf ?vA ?uA)"
  let ?faces = "facesOf uCount vCount"
  have lf: "int (length ?flat) = (uCount + 1) * (vCount + 1)"
    using assms by (simp add: length_flatGrid length_vAnglesOf length_uAnglesOf nat_mult_distrib
        mult.commute)
  have inl: "\<forall>face\<in>set ?faces. faceInLattice uCount vCount face"
    by (simp add: facesOf_inLattice)
  obtain acc where acc: "forEach (accumFace normalizeV ?flat) ?faces (map (\<lambda>_. (0, 0, 0)) ?flat)
                           = Some acc" "length acc = length ?flat"
    using forEach_accumFace [OF inl lf, of "map (\<lambda>_. (0, 0, 0)) ?flat" normalizeV] by auto
  have fl: "forEach (flatFace normalizeV uCount ?vA ?uA ?flat (map normalizeV acc)) ?faces
              ([], [], 0)
            = Some (flatVerticesOf normalizeV uCount vCount acc,
                    [0..<3 * length ?faces], 3 * length ?faces)"
    using forEach_flatFace [OF inl _ _ lf, of "map normalizeV acc" ?vA ?uA normalizeV "[]" "[]" 0]
      assms acc(2)
    by (simp add: length_vAnglesOf length_uAnglesOf flatVerticesOf_def)
  have len: "length (flatVerticesOf normalizeV uCount vCount acc) = 3 * length ?faces"
    by (simp add: flatVerticesOf_def length_concat_blocks [where n = 3] mult.commute)
  have "CreateSurfaceData normalizeV uCount vCount
          = Some (packed (flatVerticesOf normalizeV uCount vCount acc))"
    unfolding CreateSurfaceData_def Let_def
    by (simp add: acc(1) fl packLoop_zero packed_def len del: forEach.simps)
  with acc lf show ?thesis by auto
qed

lemma length_flatVerticesOf:
  "length (flatVerticesOf normalizeV uCount vCount acc) = 3 * length (facesOf uCount vCount)"
  by (simp add: flatVerticesOf_def length_concat_blocks [where n = 3] mult.commute)

lemma int_length_facesOf:
  "0 \<le> uCount \<Longrightarrow> 0 \<le> vCount \<Longrightarrow> int (length (facesOf uCount vCount)) = 2 * uCount * vCount"
  by (simp add: length_facesOf)

lemma length_packed:
  "length (positions (packed fvs)) = 3 * length fvs"
  "length (normals (packed fvs)) = 3 * length fvs"
  "length (tangents (packed fvs)) = 3 * length fvs"
  "length (texcoords (packed fvs)) = 2 * length fvs"
  "length (indices (packed fvs)) = length fvs"
  by (simp_all add: packed_def posOf_def norOf_def tanOf_def uvOf_def
      length_concat_blocks [where n = 3] length_concat_blocks [where n = 2] mult.commute)

section \<open>Values of the angles, the grid and the emitted vertices\<close>

lemma indices_packed: "indices (packed fvs) = map of_nat [0..<length fvs]"
  by (simp add: packed_def)

lemma CreateSurfaceData_indices:
  assumes "1 \<le> uCount" "1 \<le> vCount"
  shows "\<exists>d. CreateSurfaceData normalizeV uCount vCount = Some d
           \<and> indices d = map of_nat [0..<nat (6 * uCount * vCount)]"
proof -
  obtain acc where
    d: "CreateSurfaceData normalizeV uCount vCount
          = Some (packed (flatVerticesOf normalizeV uCount vCount acc))"
    using CreateSurfaceData_char [OF assms, of normalizeV] by auto
  have "length (flatVerticesOf normalizeV uCount vCount acc) = nat (6 * uCount * vCount)"
    using assms by (simp add: length_flatVerticesOf length_facesOf nat_mult_distrib)
  with d show ?thesis by (simp add: indices_packed)
qed

lemma indices_identity_below_limit:
  assumes "1 \<le> uCount" "1 \<le> vCount" "6 * uCount * vCount \<le> 65536"
  shows "\<exists>d. CreateSurfaceData normalizeV uCount vCount = Some d
           \<and> map unat (indices d) = [0..<nat (6 * uCount * vCount)]"
proof -
  obtain d where d: "CreateSurfaceData normalizeV uCount vCount = Some d"
    "indices d = map of_nat [0..<nat (6 * uCount * vCount)]"
    using CreateSurfaceData_indices [OF assms(1,2), of normalizeV] by auto
  have "map unat (map (of_nat :: nat \<Rightarrow> 16 word) [0..<nat (6 * uCount * vCount)])
          = map (\<lambda>k. k) [0..<nat (6 * uCount * vCount)]"
    unfolding map_map
  proof (rule map_cong [OF refl])
    fix k assume "k \<in> set [0..<nat (6 * uCount * vCount)]"
    then have "k < 65536" using assms(3) by auto
    then show "(unat \<circ> (of_nat :: nat \<Rightarrow> 16 word)) k = k"
      by (simp add: unat_of_nat)
  qed
  with d show ?thesis by simp
qed

lemma vAnglesOf_nth:
  assumes "1 \<le> vCount" "k \<le> nat vCount"
  shows "vAnglesOf vCount ! k = - (pi / 2) + pi * real k / real_of_int vCount"
proof -
  have "k < nat (vCount + 1)" using assms by linarith
  then have "vAnglesOf vCount ! k = deg2rad (- 90 + real k * (180 / real_of_int vCount))"
    by (simp add: vAnglesOf_def Array_from_def)
  also have "\<dots> = - (pi / 2) + pi * real k / real_of_int vCount"
    using assms by (simp add: deg2rad_def field_simps)
  finally show ?thesis .
qed

lemma uAnglesOf_nth:
  assumes "1 \<le> uCount" "k \<le> nat uCount"
  shows "uAnglesOf uCount ! k = 2 * pi * real k / real_of_int uCount"
proof -
  have "k < nat (uCount + 1)" using assms by linarith
  then have "uAnglesOf uCount ! k = deg2rad (0 + real k * (360 / real_of_int uCount))"
    by (simp add: uAnglesOf_def Array_from_def)
  also have "\<dots> = 2 * pi * real k / real_of_int uCount"
    using assms by (simp add: deg2rad_def field_simps)
  finally show ?thesis .
qed

lemma vertexGridOf_nth:
  "r < length vAngles \<Longrightarrow> c < length uAngles
     \<Longrightarrow> vertexGridOf vAngles uAngles ! r ! c = gridVertex (vAngles ! r) (uAngles ! c)"
  by (simp add: vertexGridOf_def)


lemma gridVertex_south: "gridVertex (- (pi / 2)) 0 = (48 / 100, 0, - 1)"
  by (simp add: gridVertex_def)

lemma facesOf_first:
  assumes "1 \<le> uCount" "1 \<le> vCount"
  shows "\<exists>rest. facesOf uCount vCount = (0, uCount + 1, 1) # rest"
proof -
  have "facesOf uCount vCount ! (nat 0 * (2 * nat uCount) + (nat 0 * 2 + 0))
          = cellFaces uCount 0 0 ! 0"
    using assms by (intro facesOf_nth) auto
  then have n: "facesOf uCount vCount ! 0 = (0, uCount + 1, 1)"
    by (simp add: cellFaces_def indexOf_def)
  have "0 < length (facesOf uCount vCount)"
    using assms by (simp add: length_facesOf)
  then obtain f rest where "facesOf uCount vCount = f # rest"
    by (cases "facesOf uCount vCount") auto
  with n show ?thesis by auto
qed

lemma first_position:
  assumes "1 \<le> uCount" "1 \<le> vCount"
  shows "take 3 (positions (packed (flatVerticesOf normalizeV uCount vCount acc)))
           = (case gridVertex (vAnglesOf vCount ! 0) (uAnglesOf uCount ! 0) of
                (x, y, z) \<Rightarrow> [x, y, z])"
proof -
  let ?vA = "vAnglesOf vCount" and ?uA = "uAnglesOf uCount"
  obtain rest where f: "facesOf uCount vCount = (0, uCount + 1, 1) # rest"
    using facesOf_first [OF assms] by auto
  have "concat (vertexGridOf ?vA ?uA) ! (0 * length ?uA + 0) = gridVertex (?vA ! 0) (?uA ! 0)"
    using assms by (intro flatGrid_nth) (simp_all add: length_vAnglesOf length_uAnglesOf)
  then have g: "concat (vertexGridOf ?vA ?uA) ! 0 = gridVertex (?vA ! 0) (?uA ! 0)"
    by simp
  obtain x y z where p: "gridVertex (?vA ! 0) (?uA ! 0) = (x, y, z)"
    by (cases "gridVertex (?vA ! 0) (?uA ! 0)") auto
  show ?thesis
    by (simp add: flatVerticesOf_def f faceVertices_def packed_def posOf_def cornerVertex_def
        FlatVertex_new_def g p)
qed

lemma m4_addVectors_zero_scaled: "m4_addVectors old (m4_scaleVector n 0) = old"
  by (cases old, cases n) (simp add: m4_addVectors_def m4_scaleVector_def)

lemma accumCorner_zero_area:
  "0 \<le> idx \<Longrightarrow> idx < int (length acc) \<Longrightarrow> accumCorner n 0 acc idx = Some acc"
  by (simp add: accumCorner_def js_get_Some m4_addVectors_zero_scaled)

lemma cornerVertex_uv [simp]:
  "fv_u (cornerVertex pos nor tng uv) = fst uv" "fv_v (cornerVertex pos nor tng uv) = snd uv"
  by (simp_all add: cornerVertex_def FlatVertex_new_def)

lemma uvAt_lattice:
  assumes "1 \<le> uCount" "1 \<le> vCount" "inLattice uCount vCount i"
  shows "uvAt (vAnglesOf vCount) (uAnglesOf uCount) uCount i
           = (real_of_int (colOf uCount i) / real_of_int uCount,
              real_of_int (rowOf uCount i) / real_of_int vCount)"
proof -
  have r: "0 \<le> rowOf uCount i" "rowOf uCount i \<le> vCount"
    and c: "0 \<le> colOf uCount i" "colOf uCount i \<le> uCount"
    using inLattice_row [OF assms(3)] inLattice_col [OF assms(3)] assms(1) by simp_all
  have "uAnglesOf uCount ! nat (colOf uCount i)
          = 2 * pi * real_of_int (colOf uCount i) / real_of_int uCount"
    using uAnglesOf_nth [of uCount "nat (colOf uCount i)"] assms c by simp
  moreover have "vAnglesOf vCount ! nat (rowOf uCount i)
          = - (pi / 2) + pi * real_of_int (rowOf uCount i) / real_of_int vCount"
    using vAnglesOf_nth [of vCount "nat (rowOf uCount i)"] assms r by simp
  ultimately show ?thesis
    by (simp add: uvAt_def)
qed

lemma uvAt_range:
  assumes "1 \<le> uCount" "1 \<le> vCount" "inLattice uCount vCount i"
  shows "0 \<le> fst (uvAt (vAnglesOf vCount) (uAnglesOf uCount) uCount i)
         \<and> fst (uvAt (vAnglesOf vCount) (uAnglesOf uCount) uCount i) \<le> 1
         \<and> 0 \<le> snd (uvAt (vAnglesOf vCount) (uAnglesOf uCount) uCount i)
         \<and> snd (uvAt (vAnglesOf vCount) (uAnglesOf uCount) uCount i) \<le> 1"
proof -
  have "0 \<le> rowOf uCount i" "rowOf uCount i \<le> vCount"
    "0 \<le> colOf uCount i" "colOf uCount i \<le> uCount"
    using inLattice_row [OF assms(3)] inLattice_col [OF assms(3)] assms(1) by simp_all
  then show ?thesis
    using assms(1,2) by (simp add: uvAt_lattice [OF assms])
qed

lemma faceVertices_triple:
  "faceVertices normalizeV uCount vAngles uAngles flatGrid normalizedNormals (iA, iB, iC)
     = [cornerVertex (flatGrid ! nat iA)
          (faceNormalOf normalizeV normalizedNormals (iA, iB, iC))
          (faceTangentOf normalizeV uCount vAngles uAngles flatGrid (iA, iB, iC))
          (uvAt vAngles uAngles uCount iA),
        cornerVertex (flatGrid ! nat iB)
          (faceNormalOf normalizeV normalizedNormals (iA, iB, iC))
          (faceTangentOf normalizeV uCount vAngles uAngles flatGrid (iA, iB, iC))
          (uvAt vAngles uAngles uCount iB),
        cornerVertex (flatGrid ! nat iC)
          (faceNormalOf normalizeV normalizedNormals (iA, iB, iC))
          (faceTangentOf normalizeV uCount vAngles uAngles flatGrid (iA, iB, iC))
          (uvAt vAngles uAngles uCount iC)]"
  by (simp add: faceVertices_def)

lemma flatVerticesOf_uv_range:
  assumes "1 \<le> uCount" "1 \<le> vCount" "fv \<in> set (flatVerticesOf normalizeV uCount vCount acc)"
  shows "0 \<le> fv_u fv \<and> fv_u fv \<le> 1 \<and> 0 \<le> fv_v fv \<and> fv_v fv \<le> 1"
proof -
  let ?vA = "vAnglesOf vCount" and ?uA = "uAnglesOf uCount"
  from assms(3) obtain face where face: "face \<in> set (facesOf uCount vCount)"
    and fv: "fv \<in> set (faceVertices normalizeV uCount ?vA ?uA (concat (vertexGridOf ?vA ?uA))
                         (map normalizeV acc) face)"
    unfolding flatVerticesOf_def set_concat set_map by blast
  obtain iA iB iC where f: "face = (iA, iB, iC)" by (cases face) auto
  have l: "inLattice uCount vCount iA" "inLattice uCount vCount iB" "inLattice uCount vCount iC"
    using facesOf_inLattice [OF face] by (simp_all add: f faceInLattice_def)
  note r = uvAt_range [OF assms(1,2) l(1)] uvAt_range [OF assms(1,2) l(2)]
    uvAt_range [OF assms(1,2) l(3)]
  from fv consider
    (A) pos nor tng where "fv = cornerVertex pos nor tng (uvAt ?vA ?uA uCount iA)"
    | (B) pos nor tng where "fv = cornerVertex pos nor tng (uvAt ?vA ?uA uCount iB)"
    | (C) pos nor tng where "fv = cornerVertex pos nor tng (uvAt ?vA ?uA uCount iC)"
    unfolding f faceVertices_triple by (simp only: set_simps insert_iff empty_iff) blast
  then show ?thesis
  proof cases
    case A
    then show ?thesis using r(1) by (simp only: cornerVertex_uv)
  next
    case B
    then show ?thesis using r(2) by (simp only: cornerVertex_uv)
  next
    case C
    then show ?thesis using r(3) by (simp only: cornerVertex_uv)
  qed
qed

lemma texcoords_packed:
  "t \<in> set (texcoords (packed fvs)) \<longleftrightarrow> (\<exists>fv\<in>set fvs. t = fv_u fv \<or> t = fv_v fv)"
  by (auto simp: packed_def uvOf_def)

lemma m4_length_scale: "m4_length (m4_scaleVector v s) = \<bar>s\<bar> * m4_length v"
proof -
  obtain a b c where v: "v = (a, b, c)" by (cases v) auto
  have "a * s * (a * s) + b * s * (b * s) + c * s * (c * s) = s\<^sup>2 * (a * a + b * b + c * c)"
    by (simp add: power2_eq_square algebra_simps)
  then show ?thesis
    by (simp add: v m4_length_def m4_scaleVector_def real_sqrt_mult)
qed

lemma m4_length_nonneg: "0 \<le> m4_length v"
  by (cases v) (simp add: m4_length_def)

lemma normalize_spec_unit_or_fallback:
  "m4_length (normalize_spec fallback v) = 1 \<or> normalize_spec fallback v = fallback"
proof (cases "m4_length v = 0")
  case True
  then show ?thesis by (simp add: normalize_spec_def)
next
  case False
  then have "0 < m4_length v" using m4_length_nonneg [of v] by simp
  then have "m4_length (m4_scaleVector v (1 / m4_length v)) = 1"
    by (simp add: m4_length_scale)
  with False show ?thesis by (simp add: normalize_spec_def)
qed

lemma cornerVertex_nor_tan [simp]:
  "norOf (cornerVertex pos nor tng uv) = [fst nor, fst (snd nor), snd (snd nor)]"
  "tanOf (cornerVertex pos nor tng uv) = [fst tng, fst (snd tng), snd (snd tng)]"
  by (simp_all add: cornerVertex_def FlatVertex_new_def norOf_def tanOf_def)

lemma flatVerticesOf_normalized:
  assumes "fv \<in> set (flatVerticesOf normalizeV uCount vCount acc)"
  shows "\<exists>pos x y uv. fv = cornerVertex pos (normalizeV x) (normalizeV y) uv"
proof -
  from assms obtain face where
    fv: "fv \<in> set (faceVertices normalizeV uCount (vAnglesOf vCount) (uAnglesOf uCount)
                      (concat (vertexGridOf (vAnglesOf vCount) (uAnglesOf uCount)))
                      (map normalizeV acc) face)"
    unfolding flatVerticesOf_def set_concat set_map by blast
  obtain iA iB iC where f: "face = (iA, iB, iC)" by (cases face) auto
  from fv show ?thesis
    unfolding f faceVertices_triple faceNormalOf_def faceTangentOf_def prod.case
    by (simp only: set_simps insert_iff empty_iff) blast
qed

lemma packed_normal_nth:
  assumes "k < length fvs"
  shows "[normals (packed fvs) ! (3 * k), normals (packed fvs) ! (3 * k + 1),
          normals (packed fvs) ! (3 * k + 2)] = norOf (fvs ! k)"
    and "[tangents (packed fvs) ! (3 * k), tangents (packed fvs) ! (3 * k + 1),
          tangents (packed fvs) ! (3 * k + 2)] = tanOf (fvs ! k)"
proof -
  have n: "concat (map norOf fvs) ! (k * 3 + j) = map norOf fvs ! k ! j" if "j < 3" for j
    using assms that by (intro nth_concat_blocks) (auto simp: norOf_def)
  have t: "concat (map tanOf fvs) ! (k * 3 + j) = map tanOf fvs ! k ! j" if "j < 3" for j
    using assms that by (intro nth_concat_blocks) (auto simp: tanOf_def)
  show "[normals (packed fvs) ! (3 * k), normals (packed fvs) ! (3 * k + 1),
          normals (packed fvs) ! (3 * k + 2)] = norOf (fvs ! k)"
    using n [of 0] n [of 1] n [of 2] assms
    by (simp add: packed_def mult.commute) (simp add: norOf_def)
  show "[tangents (packed fvs) ! (3 * k), tangents (packed fvs) ! (3 * k + 1),
          tangents (packed fvs) ! (3 * k + 2)] = tanOf (fvs ! k)"
    using t [of 0] t [of 1] t [of 2] assms
    by (simp add: packed_def mult.commute) (simp add: tanOf_def)
qed

section \<open>The zero vector reaches the normalisation\<close>

text \<open>
  The last row of the grid, at \<open>v = pi / 2\<close>, collapses to the single point \<open>(0, 0, 1)\<close>.
  Two consequences hold at every resolution with \<open>uCount \<ge> 1\<close> and \<open>vCount \<ge> 1\<close>, and
  for every normalisation function.
  \<^item> The second triangle of the last cell has two corners at that point. Its area is zero,
    so it adds nothing to the accumulated normals, and it is the only triangle that touches
    the last lattice vertex: the sum accumulated there is exactly the zero vector
    (\<open>last_vertex_sum_zero\<close>).
  \<^item> For that triangle the determinant of the texture coordinates is
    \<open>- 1 / (uCount * vCount)\<close>, so the fallback \<open>(1, 0, 0)\<close> of \<^verbatim>\<open>computeFaceTangent\<close> is not
    taken while \<open>uCount * vCount \<le> 10 ^ 14\<close>, and the tangent it computes is exactly the zero
    vector: the tangent written for the last vertex is the normalisation of the zero vector
    (\<open>last_vertex_tangent\<close>).
\<close>

lemma gridVertex_north: "gridVertex (pi / 2) uRad = (0, 0, 1)"
  by (simp add: gridVertex_def)

lemma vAnglesOf_last: "1 \<le> vCount \<Longrightarrow> vAnglesOf vCount ! nat vCount = pi / 2"
  using vAnglesOf_nth [of vCount "nat vCount"] by simp

lemma flatGrid_indexOf:
  assumes "0 \<le> r" "r \<le> vCount" "0 \<le> c" "c \<le> uCount"
  shows "concat (vertexGridOf (vAnglesOf vCount) (uAnglesOf uCount)) ! nat (indexOf uCount r c)
           = gridVertex (vAnglesOf vCount ! nat r) (uAnglesOf uCount ! nat c)"
proof -
  let ?vA = "vAnglesOf vCount" and ?uA = "uAnglesOf uCount"
  have "nat (indexOf uCount r c) = nat r * length ?uA + nat c"
    using assms by (simp add: indexOf_def length_uAnglesOf nat_add_distrib nat_mult_distrib)
  moreover have "concat (vertexGridOf ?vA ?uA) ! (nat r * length ?uA + nat c)
                   = gridVertex (?vA ! nat r) (?uA ! nat c)"
    using assms by (intro flatGrid_nth) (simp_all add: length_vAnglesOf length_uAnglesOf)
  ultimately show ?thesis by simp
qed

lemma flatGrid_top_row:
  assumes "1 \<le> vCount" "0 \<le> c" "c \<le> uCount"
  shows "concat (vertexGridOf (vAnglesOf vCount) (uAnglesOf uCount)) ! nat (indexOf uCount vCount c)
           = (0, 0, 1)"
  using flatGrid_indexOf [of vCount vCount c uCount] assms
  by (simp add: vAnglesOf_last gridVertex_north)

lemma uvAt_indexOf:
  assumes "1 \<le> uCount" "1 \<le> vCount" "0 \<le> r" "r \<le> vCount" "0 \<le> c" "c \<le> uCount"
  shows "uvAt (vAnglesOf vCount) (uAnglesOf uCount) uCount (indexOf uCount r c)
           = (real_of_int c / real_of_int uCount, real_of_int r / real_of_int vCount)"
  using assms uvAt_lattice [OF assms(1,2) indexOf_inLattice [OF assms(3-6)]]
  by (simp add: rowOf_indexOf colOf_indexOf)

lemma computeFaceTangent_collapsed:
  assumes "p1 = p2" "snd uv1 = snd uv2"
  shows "computeFaceTangent p0 p1 p2 uv0 uv1 uv2
           = (if \<bar>(fst uv1 - fst uv0) * (snd uv2 - snd uv0)
                    - (snd uv1 - snd uv0) * (fst uv2 - fst uv0)\<bar> < 1 / 10 ^ 14
              then (1, 0, 0) else (0, 0, 0))"
  by (simp add: computeFaceTangent_def Let_def assms)

lemma facesOf_last:
  assumes "1 \<le> uCount" "1 \<le> vCount"
  shows "facesOf uCount vCount ! (length (facesOf uCount vCount) - 1)
           = (indexOf uCount (vCount - 1) uCount, indexOf uCount vCount (uCount - 1),
              indexOf uCount vCount uCount)"
proof -
  have "length (facesOf uCount vCount) - 1
          = nat (vCount - 1) * (2 * nat uCount) + (nat (uCount - 1) * 2 + 1)"
  proof -
    have n: "int (length (facesOf uCount vCount)) = 2 * uCount * vCount"
      using assms by (simp add: int_length_facesOf)
    have "0 < uCount * vCount" using assms by simp
    with n have "1 \<le> length (facesOf uCount vCount)" by linarith
    then have "int (length (facesOf uCount vCount) - 1) = 2 * uCount * vCount - 1"
      using n by (simp add: of_nat_diff)
    moreover have "int (nat (vCount - 1) * (2 * nat uCount) + (nat (uCount - 1) * 2 + 1))
                     = 2 * uCount * vCount - 1"
      using assms by (simp add: algebra_simps)
    ultimately show ?thesis by linarith
  qed
  moreover have "facesOf uCount vCount ! (nat (vCount - 1) * (2 * nat uCount) + (nat (uCount - 1) * 2 + 1))
                   = cellFaces uCount (vCount - 1) (uCount - 1) ! 1"
    using assms by (intro facesOf_nth) auto
  ultimately show ?thesis
    by (simp add: cellFaces_def)
qed

lemma last_face_tangent:
  assumes "1 \<le> uCount" "1 \<le> vCount" "uCount * vCount \<le> 10 ^ 14"
  shows "faceTangentOf normalizeV uCount (vAnglesOf vCount) (uAnglesOf uCount)
           (concat (vertexGridOf (vAnglesOf vCount) (uAnglesOf uCount)))
           (indexOf uCount (vCount - 1) uCount, indexOf uCount vCount (uCount - 1),
            indexOf uCount vCount uCount)
         = normalizeV (0, 0, 0)"
proof -
  let ?vA = "vAnglesOf vCount" and ?uA = "uAnglesOf uCount"
  let ?flat = "concat (vertexGridOf ?vA ?uA)"
  let ?i1 = "indexOf uCount (vCount - 1) uCount"
  let ?i2 = "indexOf uCount vCount (uCount - 1)"
  let ?i3 = "indexOf uCount vCount uCount"
  have p: "?flat ! nat ?i2 = ?flat ! nat ?i3"
    using assms flatGrid_top_row [of vCount "uCount - 1" uCount]
      flatGrid_top_row [of vCount uCount uCount] by simp
  have uv1: "uvAt ?vA ?uA uCount ?i1 = (1, real_of_int (vCount - 1) / real_of_int vCount)"
    using uvAt_indexOf [of uCount vCount "vCount - 1" uCount] assms by simp
  have uv2: "uvAt ?vA ?uA uCount ?i2 = (real_of_int (uCount - 1) / real_of_int uCount, 1)"
    using uvAt_indexOf [of uCount vCount vCount "uCount - 1"] assms by simp
  have uv3: "uvAt ?vA ?uA uCount ?i3 = (1, 1)"
    using uvAt_indexOf [of uCount vCount vCount uCount] assms by simp
  have ru: "0 < real_of_int uCount" and rv: "0 < real_of_int vCount"
    using assms by simp_all
  have f: "(real_of_int (uCount - 1) / real_of_int uCount - 1)
             * (1 - real_of_int (vCount - 1) / real_of_int vCount)
           - (1 - real_of_int (vCount - 1) / real_of_int vCount) * (1 - 1)
           = - (1 / (real_of_int uCount * real_of_int vCount))"
    using ru rv by (simp add: field_simps)
  have "real_of_int (uCount * vCount) \<le> 10 ^ 14"
    using assms(3) by (metis of_int_le_iff of_int_numeral of_int_power)
  then have "real_of_int uCount * real_of_int vCount \<le> 10 ^ 14"
    by simp
  then have "1 / 10 ^ 14 \<le> 1 / (real_of_int uCount * real_of_int vCount)"
    using ru rv by (intro divide_left_mono) simp_all
  then have nf: "\<not> \<bar>- (1 / (real_of_int uCount * real_of_int vCount))\<bar> < 1 / 10 ^ 14"
    using ru rv by simp
  have "computeFaceTangent (?flat ! nat ?i1) (?flat ! nat ?i2) (?flat ! nat ?i3)
          (uvAt ?vA ?uA uCount ?i1) (uvAt ?vA ?uA uCount ?i2) (uvAt ?vA ?uA uCount ?i3)
        = (0, 0, 0)"
    by (subst computeFaceTangent_collapsed [OF p]) (simp_all only: uv1 uv2 uv3 fst_conv snd_conv f nf if_False)
  then show ?thesis
    by (simp only: faceTangentOf_def prod.case)
qed

lemma indexOf_inj:
  assumes "0 \<le> r" "0 \<le> c" "c \<le> uCount" "0 \<le> r'" "0 \<le> c'" "c' \<le> uCount"
    "indexOf uCount r c = indexOf uCount r' c'"
  shows "r = r' \<and> c = c'"
proof -
  have a: "rowOf uCount (indexOf uCount r c) = r" "colOf uCount (indexOf uCount r c) = c"
    using assms(1-3) by (simp_all add: rowOf_indexOf colOf_indexOf)
  have b: "rowOf uCount (indexOf uCount r' c') = r'" "colOf uCount (indexOf uCount r' c') = c'"
    using assms(4-6) by (simp_all add: rowOf_indexOf colOf_indexOf)
  have "r = rowOf uCount (indexOf uCount r c)" by (simp only: a)
  also have "\<dots> = rowOf uCount (indexOf uCount r' c')" by (simp only: assms(7))
  also have "\<dots> = r'" by (rule b(1))
  finally have rr: "r = r'" .
  have "c = colOf uCount (indexOf uCount r c)" by (simp only: a)
  also have "\<dots> = colOf uCount (indexOf uCount r' c')" by (simp only: assms(7))
  also have "\<dots> = c'" by (rule b(2))
  finally have cc: "c = c'" .
  from rr cc show ?thesis by (rule conjI)
qed

lemma m4_cross_self: "m4_cross a a = (0, 0, 0)"
  by (cases a) (simp add: m4_cross_def)

lemma m4_length_zero: "m4_length (0, 0, 0) = 0"
  by (simp add: m4_length_def)

lemma computeFaceNormalAndArea_collapsed:
  "computeFaceNormalAndArea normalizeV p0 p1 p1 = \<lparr>normal = (0, 0, 1), area = 0\<rparr>"
  by (simp add: computeFaceNormalAndArea_def Let_def m4_cross_self m4_length_zero)

lemma accumFace_zero_area:
  assumes "area (computeFaceNormalAndArea normalizeV (flatGrid ! nat iA) (flatGrid ! nat iB)
                   (flatGrid ! nat iC)) = 0"
    "0 \<le> iA" "iA < int (length flatGrid)" "0 \<le> iB" "iB < int (length flatGrid)"
    "0 \<le> iC" "iC < int (length flatGrid)" "length accumNormals = length flatGrid"
  shows "accumFace normalizeV flatGrid accumNormals (iA, iB, iC) = Some accumNormals"
  using assms by (simp add: accumFace_def js_get_Some accumCorner_zero_area)

lemma accumCorner_other:
  assumes "0 \<le> idx" "idx < int (length acc)" "0 \<le> l" "idx \<noteq> l"
  shows "\<exists>acc'. accumCorner n a acc idx = Some acc' \<and> length acc' = length acc
           \<and> acc' ! nat l = acc ! nat l"
  using assms by (simp add: accumCorner_def js_get_Some)

lemma accumFace_other:
  assumes "0 \<le> iA" "iA < int (length flatGrid)" "0 \<le> iB" "iB < int (length flatGrid)"
    "0 \<le> iC" "iC < int (length flatGrid)" "length acc = length flatGrid"
    "0 \<le> l" "iA \<noteq> l" "iB \<noteq> l" "iC \<noteq> l"
  shows "\<exists>acc'. accumFace normalizeV flatGrid acc (iA, iB, iC) = Some acc'
           \<and> length acc' = length flatGrid \<and> acc' ! nat l = acc ! nat l"
proof -
  let ?fg = "computeFaceNormalAndArea normalizeV (flatGrid ! nat iA) (flatGrid ! nat iB)
               (flatGrid ! nat iC)"
  obtain a1 where a1: "accumCorner (normal ?fg) (area ?fg) acc iA = Some a1"
    "length a1 = length flatGrid" "a1 ! nat l = acc ! nat l"
    using accumCorner_other [where idx = iA and acc = acc and n = "normal ?fg"
        and a = "area ?fg" and l = l] assms
    by auto
  obtain a2 where a2: "accumCorner (normal ?fg) (area ?fg) a1 iB = Some a2"
    "length a2 = length flatGrid" "a2 ! nat l = acc ! nat l"
    using accumCorner_other [where idx = iB and acc = a1 and n = "normal ?fg"
        and a = "area ?fg" and l = l] assms a1
    by auto
  obtain a3 where a3: "accumCorner (normal ?fg) (area ?fg) a2 iC = Some a3"
    "length a3 = length flatGrid" "a3 ! nat l = acc ! nat l"
    using accumCorner_other [where idx = iC and acc = a2 and n = "normal ?fg"
        and a = "area ?fg" and l = l] assms a2
    by auto
  show ?thesis
    using assms a1 a2 a3 by (simp add: accumFace_def js_get_Some)
qed

lemma facesOf_last_index:
  assumes "1 \<le> uCount" "1 \<le> vCount" "(iA, iB, iC) \<in> set (facesOf uCount vCount)"
  shows "(iA \<noteq> indexOf uCount vCount uCount \<and> iB \<noteq> indexOf uCount vCount uCount
            \<and> iC \<noteq> indexOf uCount vCount uCount)
         \<or> (iA, iB, iC) = (indexOf uCount (vCount - 1) uCount, indexOf uCount vCount (uCount - 1),
                             indexOf uCount vCount uCount)"
proof -
  from assms(3) obtain iv iu where b: "0 \<le> iv" "iv < vCount" "0 \<le> iu" "iu < uCount"
    and f: "(iA, iB, iC) \<in> set (cellFaces uCount iv iu)"
    by (auto simp: set_facesOf)
  have n0: "indexOf uCount iv iu \<noteq> indexOf uCount vCount uCount"
    using indexOf_inj [of iv iu uCount vCount uCount] b by auto
  have n1: "indexOf uCount iv (iu + 1) \<noteq> indexOf uCount vCount uCount"
    using indexOf_inj [of iv "iu + 1" uCount vCount uCount] b by auto
  have n2: "indexOf uCount (iv + 1) iu \<noteq> indexOf uCount vCount uCount"
    using indexOf_inj [of "iv + 1" iu uCount vCount uCount] b by auto
  have n3: "iv = vCount - 1 \<and> iu = uCount - 1"
    if "indexOf uCount (iv + 1) (iu + 1) = indexOf uCount vCount uCount"
    using indexOf_inj [of "iv + 1" "iu + 1" uCount vCount uCount] b that by auto
  from f consider (first) "(iA, iB, iC) = (indexOf uCount iv iu, indexOf uCount (iv + 1) iu,
                                            indexOf uCount iv (iu + 1))"
    | (second) "(iA, iB, iC) = (indexOf uCount iv (iu + 1), indexOf uCount (iv + 1) iu,
                                indexOf uCount (iv + 1) (iu + 1))"
    by (auto simp: cellFaces_def)
  then show ?thesis
  proof cases
    case first
    then show ?thesis using n0 n1 n2 by simp
  next
    case second
    show ?thesis
    proof (cases "indexOf uCount (iv + 1) (iu + 1) = indexOf uCount vCount uCount")
      case True
      with n3 second show ?thesis by simp
    next
      case False
      with second n1 n2 show ?thesis by simp
    qed
  qed
qed

lemma last_face_unchanged:
  assumes "1 \<le> uCount" "1 \<le> vCount"
    "length acc = length (concat (vertexGridOf (vAnglesOf vCount) (uAnglesOf uCount)))"
  shows "accumFace normalizeV (concat (vertexGridOf (vAnglesOf vCount) (uAnglesOf uCount))) acc
           (indexOf uCount (vCount - 1) uCount, indexOf uCount vCount (uCount - 1),
            indexOf uCount vCount uCount)
         = Some acc"
proof -
  let ?flat = "concat (vertexGridOf (vAnglesOf vCount) (uAnglesOf uCount))"
  let ?i1 = "indexOf uCount (vCount - 1) uCount"
  let ?i2 = "indexOf uCount vCount (uCount - 1)"
  let ?i3 = "indexOf uCount vCount uCount"
  have lf: "int (length ?flat) = (uCount + 1) * (vCount + 1)"
    using assms by (simp add: length_flatGrid length_vAnglesOf length_uAnglesOf nat_mult_distrib
        mult.commute)
  have p: "?flat ! nat ?i2 = ?flat ! nat ?i3"
    using assms flatGrid_top_row [of vCount "uCount - 1" uCount]
      flatGrid_top_row [of vCount uCount uCount] by simp
  have l: "inLattice uCount vCount ?i1" "inLattice uCount vCount ?i2" "inLattice uCount vCount ?i3"
    using assms by (auto intro!: indexOf_inLattice)
  have "area (computeFaceNormalAndArea normalizeV (?flat ! nat ?i1) (?flat ! nat ?i2)
                (?flat ! nat ?i3)) = 0"
    by (simp only: p computeFaceNormalAndArea_collapsed) simp
  then show ?thesis
    using l lf assms(3) by (intro accumFace_zero_area) (simp_all add: inLattice_def)
qed

lemma forEach_accumFace_last:
  assumes "1 \<le> uCount" "1 \<le> vCount" "set faces \<subseteq> set (facesOf uCount vCount)"
    "length acc = length (concat (vertexGridOf (vAnglesOf vCount) (uAnglesOf uCount)))"
  shows "\<exists>acc'. forEach (accumFace normalizeV
                   (concat (vertexGridOf (vAnglesOf vCount) (uAnglesOf uCount)))) faces acc
                = Some acc'
           \<and> length acc' = length acc
           \<and> acc' ! nat (indexOf uCount vCount uCount) = acc ! nat (indexOf uCount vCount uCount)"
  using assms(3,4)
proof (induction faces arbitrary: acc)
  case Nil
  then show ?case by simp
next
  case (Cons face faces)
  let ?flat = "concat (vertexGridOf (vAnglesOf vCount) (uAnglesOf uCount))"
  let ?l = "indexOf uCount vCount uCount"
  obtain iA iB iC where face: "face = (iA, iB, iC)" by (cases face) auto
  have mem: "(iA, iB, iC) \<in> set (facesOf uCount vCount)"
    using Cons.prems face by simp
  have lf: "int (length ?flat) = (uCount + 1) * (vCount + 1)"
    using assms by (simp add: length_flatGrid length_vAnglesOf length_uAnglesOf nat_mult_distrib
        mult.commute)
  have l: "inLattice uCount vCount iA" "inLattice uCount vCount iB" "inLattice uCount vCount iC"
    using facesOf_inLattice [OF mem] by (simp_all add: faceInLattice_def)
  have nl: "0 \<le> ?l" using assms by (simp add: indexOf_def)
  have "\<exists>acc1. accumFace normalizeV ?flat acc face = Some acc1 \<and> length acc1 = length acc
            \<and> acc1 ! nat ?l = acc ! nat ?l"
  proof (cases "(iA, iB, iC) = (indexOf uCount (vCount - 1) uCount,
                   indexOf uCount vCount (uCount - 1), indexOf uCount vCount uCount)")
    case True
    then show ?thesis
      using last_face_unchanged [OF assms(1,2) Cons.prems(2), of normalizeV] face by simp
  next
    case False
    then have "iA \<noteq> ?l" "iB \<noteq> ?l" "iC \<noteq> ?l"
      using facesOf_last_index [OF assms(1,2) mem] by auto
    then show ?thesis
      using accumFace_other [of iA ?flat iB iC acc ?l normalizeV] l lf Cons.prems(2) nl face
      by (simp add: inLattice_def)
  qed
  then obtain acc1 where s: "accumFace normalizeV ?flat acc face = Some acc1"
    "length acc1 = length acc" "acc1 ! nat ?l = acc ! nat ?l"
    by blast
  have "set faces \<subseteq> set (facesOf uCount vCount)" using Cons.prems by simp
  from Cons.IH [OF this, of acc1] s Cons.prems(2) show ?case by simp
qed

lemma last_vertex_sum_zero:
  assumes "1 \<le> uCount" "1 \<le> vCount"
  shows "\<exists>acc. forEach (accumFace normalizeV
                   (concat (vertexGridOf (vAnglesOf vCount) (uAnglesOf uCount))))
                 (facesOf uCount vCount)
                 (map (\<lambda>_. (0, 0, 0)) (concat (vertexGridOf (vAnglesOf vCount) (uAnglesOf uCount))))
               = Some acc
           \<and> acc ! nat (indexOf uCount vCount uCount) = (0, 0, 0)"
proof -
  let ?flat = "concat (vertexGridOf (vAnglesOf vCount) (uAnglesOf uCount))"
  have lf: "int (length ?flat) = (uCount + 1) * (vCount + 1)"
    using assms by (simp add: length_flatGrid length_vAnglesOf length_uAnglesOf nat_mult_distrib
        mult.commute)
  have "inLattice uCount vCount (indexOf uCount vCount uCount)"
    using assms by (auto intro!: indexOf_inLattice)
  then have "0 \<le> indexOf uCount vCount uCount"
    "indexOf uCount vCount uCount < int (length ?flat)"
    using lf by (simp_all add: inLattice_def)
  then have "nat (indexOf uCount vCount uCount) < length ?flat"
    by (simp add: nat_less_iff)
  then have "map (\<lambda>_. (0, 0, 0) :: vec3) ?flat ! nat (indexOf uCount vCount uCount) = (0, 0, 0)"
    by simp
  then show ?thesis
    using forEach_accumFace_last [OF assms subset_refl, of "map (\<lambda>_. (0, 0, 0)) ?flat" normalizeV]
    by auto
qed

lemma flatVerticesOf_last:
  assumes "1 \<le> uCount" "1 \<le> vCount"
  shows "flatVerticesOf normalizeV uCount vCount acc
           ! (length (flatVerticesOf normalizeV uCount vCount acc) - 1)
         = cornerVertex
             (concat (vertexGridOf (vAnglesOf vCount) (uAnglesOf uCount))
                ! nat (indexOf uCount vCount uCount))
             (faceNormalOf normalizeV (map normalizeV acc)
                (indexOf uCount (vCount - 1) uCount, indexOf uCount vCount (uCount - 1),
                 indexOf uCount vCount uCount))
             (faceTangentOf normalizeV uCount (vAnglesOf vCount) (uAnglesOf uCount)
                (concat (vertexGridOf (vAnglesOf vCount) (uAnglesOf uCount)))
                (indexOf uCount (vCount - 1) uCount, indexOf uCount vCount (uCount - 1),
                 indexOf uCount vCount uCount))
             (uvAt (vAnglesOf vCount) (uAnglesOf uCount) uCount (indexOf uCount vCount uCount))"
proof -
  let ?vA = "vAnglesOf vCount" and ?uA = "uAnglesOf uCount"
  let ?flat = "concat (vertexGridOf ?vA ?uA)"
  let ?FV = "faceVertices normalizeV uCount ?vA ?uA ?flat (map normalizeV acc)"
  let ?faces = "facesOf uCount vCount"
  let ?n = "length ?faces"
  have "int ?n = 2 * uCount * vCount"
    using assms by (simp add: int_length_facesOf)
  moreover have "0 < uCount * vCount" using assms by simp
  ultimately have n: "1 \<le> ?n" by linarith
  have l: "length (flatVerticesOf normalizeV uCount vCount acc) - 1 = (?n - 1) * 3 + 2"
    using n by (simp add: length_flatVerticesOf)
  have "flatVerticesOf normalizeV uCount vCount acc
          ! (length (flatVerticesOf normalizeV uCount vCount acc) - 1)
        = concat (map ?FV ?faces) ! ((?n - 1) * 3 + 2)"
    by (simp only: l) (simp only: flatVerticesOf_def)
  also have "\<dots> = map ?FV ?faces ! (?n - 1) ! 2"
    using n by (intro nth_concat_blocks) auto
  also have "map ?FV ?faces ! (?n - 1) = ?FV (?faces ! (?n - 1))"
    using n by (intro nth_map) simp
  also have "?faces ! (?n - 1)
               = (indexOf uCount (vCount - 1) uCount, indexOf uCount vCount (uCount - 1),
                  indexOf uCount vCount uCount)"
    by (rule facesOf_last [OF assms])
  finally show ?thesis
    by (simp add: faceVertices_triple)
qed

lemma last_vertex_tangent:
  assumes "1 \<le> uCount" "1 \<le> vCount" "uCount * vCount \<le> 10 ^ 14"
  shows "\<exists>d. CreateSurfaceData normalizeV uCount vCount = Some d
           \<and> (tangents d ! (3 * (length (indices d) - 1)),
               tangents d ! (3 * (length (indices d) - 1) + 1),
               tangents d ! (3 * (length (indices d) - 1) + 2)) = normalizeV (0, 0, 0)"
proof -
  obtain acc where
    d: "CreateSurfaceData normalizeV uCount vCount
          = Some (packed (flatVerticesOf normalizeV uCount vCount acc))"
    using CreateSurfaceData_char [OF assms(1,2), of normalizeV] by auto
  let ?fvs = "flatVerticesOf normalizeV uCount vCount acc"
  let ?k = "length ?fvs - 1"
  have "int (length ?fvs) = 6 * uCount * vCount"
    using assms by (simp add: length_flatVerticesOf length_facesOf)
  moreover have "0 < uCount * vCount" using assms by simp
  ultimately have k: "?k < length ?fvs" by linarith
  have "[tangents (packed ?fvs) ! (3 * ?k), tangents (packed ?fvs) ! (3 * ?k + 1),
         tangents (packed ?fvs) ! (3 * ?k + 2)] = tanOf (?fvs ! ?k)"
    by (rule packed_normal_nth(2) [OF k])
  also have "\<dots> = (case normalizeV (0, 0, 0) of (x, y, z) \<Rightarrow> [x, y, z])"
    by (simp only: flatVerticesOf_last [OF assms(1,2)] cornerVertex_nor_tan
        last_face_tangent [OF assms]) (simp add: case_prod_beta)
  finally have "(tangents (packed ?fvs) ! (3 * ?k), tangents (packed ?fvs) ! (3 * ?k + 1),
                 tangents (packed ?fvs) ! (3 * ?k + 2)) = normalizeV (0, 0, 0)"
    by (cases "normalizeV (0, 0, 0)") simp
  then show ?thesis
    using d by (simp add: length_packed)
qed

section \<open>The claims\<close>

subsection \<open>C1: triangle and vertex counts\<close>

text \<open>
  C1. For every resolution with \<open>uCount \<ge> 1\<close> and \<open>vCount \<ge> 1\<close> the generator builds
  exactly \<open>2 * uCount * vCount\<close> triangles; it returns, and its result is the packing of
  exactly \<open>6 * uCount * vCount\<close> replicated vertices, so that the position, normal and
  tangent arrays hold \<open>3 * (6 * uCount * vCount)\<close> numbers each and the texture
  coordinate array \<open>2 * (6 * uCount * vCount)\<close>.
\<close>

theorem C1_vertex_count_invariant:
  assumes "1 \<le> uCount" "1 \<le> vCount"
  shows "int (length (facesOf uCount vCount)) = 2 * uCount * vCount
         \<and> (\<exists>fvs. int (length fvs) = 6 * uCount * vCount
                \<and> CreateSurfaceData normalizeV uCount vCount = Some (packed fvs))
         \<and> (\<exists>d. CreateSurfaceData normalizeV uCount vCount = Some d
                \<and> int (length (positions d)) = 3 * (6 * uCount * vCount)
                \<and> int (length (normals d)) = 3 * (6 * uCount * vCount)
                \<and> int (length (tangents d)) = 3 * (6 * uCount * vCount)
                \<and> int (length (texcoords d)) = 2 * (6 * uCount * vCount))"
proof -
  have f: "int (length (facesOf uCount vCount)) = 2 * uCount * vCount"
    using assms by (simp add: int_length_facesOf)
  obtain acc where
    d: "CreateSurfaceData normalizeV uCount vCount
          = Some (packed (flatVerticesOf normalizeV uCount vCount acc))"
    using CreateSurfaceData_char [OF assms, of normalizeV] by auto
  let ?fvs = "flatVerticesOf normalizeV uCount vCount acc"
  have n: "int (length ?fvs) = 6 * uCount * vCount"
    using f by (simp add: length_flatVerticesOf)
  have "int (length (positions (packed ?fvs))) = 3 * (6 * uCount * vCount)"
       "int (length (normals (packed ?fvs))) = 3 * (6 * uCount * vCount)"
       "int (length (tangents (packed ?fvs))) = 3 * (6 * uCount * vCount)"
       "int (length (texcoords (packed ?fvs))) = 2 * (6 * uCount * vCount)"
    using n by (simp_all add: length_packed)
  with f d n show ?thesis by blast
qed

theorem C1_vertex_count_invariant_witness:
  "(1::int) \<le> 4 \<and> (1::int) \<le> 2
   \<and> int (length (facesOf 4 2)) = 16
   \<and> (\<exists>fvs. int (length fvs) = 48 \<and> CreateSurfaceData id 4 2 = Some (packed fvs))
   \<and> (\<exists>d. CreateSurfaceData id 4 2 = Some d
          \<and> int (length (positions d)) = 144
          \<and> int (length (normals d)) = 144
          \<and> int (length (tangents d)) = 144
          \<and> int (length (texcoords d)) = 96)"
  using C1_vertex_count_invariant [of 4 2 id] by simp

subsection \<open>C2: the index array\<close>

text \<open>
  C2. The index array is meant to be the identity sequence \<open>0, 1, ..., N - 1\<close> with
  \<open>N = 6 * uCount * vCount\<close>. The generator pushes exactly these numbers, and then
  stores them in a \<^verbatim>\<open>Uint16Array\<close>, which keeps each one modulo \<open>65536\<close>. At the
  resolution \<open>105 \<times> 105\<close> there are \<open>66150\<close> vertices: the entry at position
  \<open>65535\<close> is still \<open>65535\<close>, the entry at position \<open>65536\<close> is \<open>0\<close> and the last
  one is \<open>613\<close>, so the array is not the identity sequence there.
\<close>

theorem C2_index_wraps_at_105:
  "\<exists>d. CreateSurfaceData normalizeV 105 105 = Some d
     \<and> length (indices d) = 66150
     \<and> unat (indices d ! 65535) = 65535
     \<and> unat (indices d ! 65536) = 0
     \<and> unat (indices d ! 66149) = 613"
proof -
  obtain d where d: "CreateSurfaceData normalizeV 105 105 = Some d"
    "indices d = map of_nat [0..<nat (6 * 105 * 105)]"
    using CreateSurfaceData_indices [of 105 105 normalizeV] by auto
  have "length (indices d) = 66150"
    by (simp add: d(2))
  moreover have "unat (indices d ! 65535) = 65535" "unat (indices d ! 65536) = 0"
    "unat (indices d ! 66149) = 613"
    by (simp_all add: d(2) unat_of_nat)
  ultimately show ?thesis using d(1) by blast
qed

subsection \<open>C3: the two triangles of a cell\<close>

text \<open>
  C3. For every cell \<open>(iv, iu)\<close> with \<open>0 \<le> iv < vCount\<close> and \<open>0 \<le> iu < uCount\<close> the
  triangle list holds, at the positions \<open>2 * (iv * uCount + iu)\<close> and
  \<open>2 * (iv * uCount + iu) + 1\<close> of the row-major cell order, the triangles
  \<open>(i0, i2, i1)\<close> and \<open>(i1, i2, i3)\<close>, where \<open>i0 = index(iv, iu)\<close>,
  \<open>i1 = index(iv, iu + 1)\<close>, \<open>i2 = index(iv + 1, iu)\<close>, \<open>i3 = index(iv + 1, iu + 1)\<close> and
  \<open>index(iv, iu) = iv * (uCount + 1) + iu\<close>; the list has \<open>2 * uCount * vCount\<close> entries,
  so it holds nothing else.
\<close>

theorem C3_triangulator_cells:
  assumes "0 \<le> iv" "iv < vCount" "0 \<le> iu" "iu < uCount"
  shows "facesOf uCount vCount ! nat (2 * (iv * uCount + iu))
           = (iv * (uCount + 1) + iu, (iv + 1) * (uCount + 1) + iu, iv * (uCount + 1) + (iu + 1))
         \<and> facesOf uCount vCount ! nat (2 * (iv * uCount + iu) + 1)
           = (iv * (uCount + 1) + (iu + 1), (iv + 1) * (uCount + 1) + iu,
              (iv + 1) * (uCount + 1) + (iu + 1))
         \<and> int (length (facesOf uCount vCount)) = 2 * uCount * vCount"
proof -
  have k0: "nat (2 * (iv * uCount + iu)) = nat iv * (2 * nat uCount) + (nat iu * 2 + 0)"
    using assms by (simp add: nat_add_distrib nat_mult_distrib algebra_simps)
  have k1: "nat (2 * (iv * uCount + iu) + 1) = nat iv * (2 * nat uCount) + (nat iu * 2 + 1)"
    using assms by (simp add: nat_add_distrib nat_mult_distrib algebra_simps)
  have "facesOf uCount vCount ! nat (2 * (iv * uCount + iu)) = cellFaces uCount iv iu ! 0"
    unfolding k0 using assms by (intro facesOf_nth) auto
  moreover have "facesOf uCount vCount ! nat (2 * (iv * uCount + iu) + 1)
                   = cellFaces uCount iv iu ! 1"
    unfolding k1 using assms by (intro facesOf_nth) auto
  moreover have "int (length (facesOf uCount vCount)) = 2 * uCount * vCount"
    using assms by (simp add: int_length_facesOf)
  ultimately show ?thesis
    by (simp add: cellFaces_def indexOf_def)
qed

theorem C3_triangulator_cells_witness:
  "(0::int) \<le> 1 \<and> (1::int) < 2 \<and> (0::int) \<le> 3 \<and> (3::int) < 4
   \<and> facesOf 4 2 ! 14 = (8, 13, 9) \<and> facesOf 4 2 ! 15 = (9, 13, 14)
   \<and> int (length (facesOf 4 2)) = 16"
  using C3_triangulator_cells [of 1 2 3 4] by simp

subsection \<open>C4: grid positions and the surface formula\<close>

text \<open>
  C4. At a resolution with \<open>uCount \<ge> 1\<close> and \<open>vCount \<ge> 1\<close>, every grid position
  \<open>(iv, iu)\<close> equals the surface formula of the specification at the angles
  \<open>u = 2 * pi * iu / uCount\<close> and \<open>v = - pi / 2 + pi * iv / vCount\<close>. For \<open>uCount = 4\<close>
  and \<open>vCount = 2\<close>, corner 0 of triangle 0 is the lattice index of \<open>(iv, iu) = (0, 0)\<close>,
  the generator returns 48 vertices, and the first position it writes is
  \<open>(0.48, 0, - 1)\<close>, the value of the surface formula at \<open>u = 0\<close>, \<open>v = - pi / 2\<close>.
\<close>

theorem C4_grid_positions:
  assumes "1 \<le> uCount" "1 \<le> vCount" "0 \<le> iv" "iv \<le> vCount" "0 \<le> iu" "iu \<le> uCount"
  shows "vertexGridOf (vAnglesOf vCount) (uAnglesOf uCount) ! nat iv ! nat iu
           = surfacePoint_spec (uAnglesOf uCount ! nat iu) (vAnglesOf vCount ! nat iv)
         \<and> uAnglesOf uCount ! nat iu = 2 * pi * real_of_int iu / real_of_int uCount
         \<and> vAnglesOf vCount ! nat iv = - (pi / 2) + pi * real_of_int iv / real_of_int vCount
         \<and> fst (facesOf 4 2 ! 0) = indexOf 4 0 0
         \<and> (\<exists>d. CreateSurfaceData normalizeV 4 2 = Some d
                \<and> length (positions d) = 3 * 48
                \<and> take 3 (positions d) = [48 / 100, 0, - 1])
         \<and> surfacePoint_spec 0 (- (pi / 2)) = (48 / 100, 0, - 1)"
proof -
  have "nat iv < length (vAnglesOf vCount)" "nat iu < length (uAnglesOf uCount)"
    using assms by (simp_all add: length_vAnglesOf length_uAnglesOf)
  then have "vertexGridOf (vAnglesOf vCount) (uAnglesOf uCount) ! nat iv ! nat iu
               = gridVertex (vAnglesOf vCount ! nat iv) (uAnglesOf uCount ! nat iu)"
    by (rule vertexGridOf_nth)
  then have a: "vertexGridOf (vAnglesOf vCount) (uAnglesOf uCount) ! nat iv ! nat iu
                  = surfacePoint_spec (uAnglesOf uCount ! nat iu) (vAnglesOf vCount ! nat iv)"
    by (simp add: gridVertex_def surfacePoint_spec_def)
  have b: "uAnglesOf uCount ! nat iu = 2 * pi * real_of_int iu / real_of_int uCount"
    using assms uAnglesOf_nth [of uCount "nat iu"] by simp
  have c: "vAnglesOf vCount ! nat iv = - (pi / 2) + pi * real_of_int iv / real_of_int vCount"
    using assms vAnglesOf_nth [of vCount "nat iv"] by simp
  obtain rest where "facesOf 4 2 = (0, 4 + 1, 1) # rest"
    using facesOf_first [of 4 2] by auto
  then have d: "fst (facesOf 4 2 ! 0) = indexOf 4 0 0"
    by (simp add: indexOf_def)
  obtain acc where
    e: "CreateSurfaceData normalizeV 4 2 = Some (packed (flatVerticesOf normalizeV 4 2 acc))"
    using CreateSurfaceData_char [of 4 2 normalizeV] by auto
  have "vAnglesOf 2 ! 0 = - (pi / 2)" "uAnglesOf 4 ! 0 = 0"
    using vAnglesOf_nth [of 2 0] uAnglesOf_nth [of 4 0] by simp_all
  then have "take 3 (positions (packed (flatVerticesOf normalizeV 4 2 acc))) = [48 / 100, 0, - 1]"
    using first_position [of 4 2 normalizeV acc] by (simp add: gridVertex_south)
  moreover have "length (positions (packed (flatVerticesOf normalizeV 4 2 acc))) = 3 * 48"
    by (simp add: length_packed length_flatVerticesOf length_facesOf)
  ultimately have f: "\<exists>d. CreateSurfaceData normalizeV 4 2 = Some d
                        \<and> length (positions d) = 3 * 48
                        \<and> take 3 (positions d) = [48 / 100, 0, - 1]"
    using e by blast
  have g: "surfacePoint_spec 0 (- (pi / 2)) = (48 / 100, 0, - 1)"
    by (simp add: surfacePoint_spec_def)
  from a b c d f g show ?thesis by blast
qed

theorem C4_grid_positions_witness:
  "(1::int) \<le> 4 \<and> (1::int) \<le> 2 \<and> (0::int) \<le> 1 \<and> (1::int) \<le> 2 \<and> (0::int) \<le> 2 \<and> (2::int) \<le> 4
   \<and> vertexGridOf (vAnglesOf 2) (uAnglesOf 4) ! 1 ! 2
       = surfacePoint_spec (uAnglesOf 4 ! 2) (vAnglesOf 2 ! 1)
   \<and> uAnglesOf 4 ! 2 = pi
   \<and> vAnglesOf 2 ! 1 = 0
   \<and> fst (facesOf 4 2 ! 0) = indexOf 4 0 0
   \<and> (\<exists>d. CreateSurfaceData id 4 2 = Some d
          \<and> length (positions d) = 144
          \<and> take 3 (positions d) = [48 / 100, 0, - 1])
   \<and> surfacePoint_spec 0 (- (pi / 2)) = (48 / 100, 0, - 1)"
  using C4_grid_positions [of 4 2 1 2 id] by (simp add: numeral_2_eq_2 [symmetric])

subsection \<open>C5: a resolution below one\<close>

text \<open>
  C5, as amended. The claim asks that a resolution with \<open>uCount < 1\<close> or \<open>vCount < 1\<close>
  be rejected before the grid is built. The generator has no such check. What it does:
  for every such resolution it returns normally, with no triangle and with the five
  output arrays empty. The counterexample shows the two inputs \<open>(0, 1)\<close> and \<open>(1, 0)\<close>
  accepted.
\<close>

theorem C5_no_rejection:
  assumes "uCount < 1 \<or> vCount < 1"
  shows "CreateSurfaceData normalizeV uCount vCount
           = Some \<lparr>positions = [], normals = [], tangents = [], texcoords = [], indices = []\<rparr>"
  using CreateSurfaceData_empty [OF assms, of normalizeV] by (simp add: packed_def)

theorem C5_no_rejection_witness:
  "((0::int) < 1 \<or> (3::int) < 1)
   \<and> CreateSurfaceData id 0 3
       = Some \<lparr>positions = [], normals = [], tangents = [], texcoords = [], indices = []\<rparr>"
  using C5_no_rejection [of 0 3 id] by simp

theorem C5_zero_resolution_accepted:
  "CreateSurfaceData id 0 1 \<noteq> None \<and> CreateSurfaceData id 1 0 \<noteq> None"
  by (simp add: CreateSurfaceData_empty)

subsection \<open>C6: the seam\<close>



subsection \<open>C7: unit normals and tangents\<close>

text \<open>
  C7. Under the specification's reading of \<^verbatim>\<open>m4.normalize\<close>, at a resolution with
  \<open>uCount \<ge> 1\<close> and \<open>vCount \<ge> 1\<close> the normal and the tangent written for every vertex
  \<open>k\<close> of the output have length exactly \<open>1\<close>, or are the fallback constant of the
  normalisation; and normalising a sum that is exactly the zero vector gives that
  constant. Exact reals stand for the tolerance, and a real vector for the absence of
  \<^verbatim>\<open>NaN\<close>. Both cases occur in every mesh: by \<open>last_vertex_sum_zero\<close> and
  \<open>last_vertex_tangent\<close> the generator normalises the zero vector at every resolution, so
  what it writes there is whatever the normalisation returns on the zero vector.
\<close>

theorem C7_unit_normals_and_tangents:
  assumes "1 \<le> uCount" "1 \<le> vCount" "int k < 6 * uCount * vCount"
  shows "(\<exists>d. CreateSurfaceData (normalize_spec fallback) uCount vCount = Some d
            \<and> (m4_length (normals d ! (3 * k), normals d ! (3 * k + 1), normals d ! (3 * k + 2)) = 1
                 \<or> (normals d ! (3 * k), normals d ! (3 * k + 1), normals d ! (3 * k + 2)) = fallback)
            \<and> (m4_length (tangents d ! (3 * k), tangents d ! (3 * k + 1), tangents d ! (3 * k + 2)) = 1
                 \<or> (tangents d ! (3 * k), tangents d ! (3 * k + 1), tangents d ! (3 * k + 2))
                      = fallback))
         \<and> normalize_spec fallback (0, 0, 0) = fallback"
proof -
  let ?n = "normalize_spec fallback"
  obtain acc where
    d: "CreateSurfaceData ?n uCount vCount = Some (packed (flatVerticesOf ?n uCount vCount acc))"
    using CreateSurfaceData_char [OF assms(1,2), of ?n] by auto
  let ?fvs = "flatVerticesOf ?n uCount vCount acc"
  have "length ?fvs = nat (6 * uCount * vCount)"
    using assms by (simp add: length_flatVerticesOf length_facesOf nat_mult_distrib)
  then have k: "k < length ?fvs"
    using assms(3) by (simp add: zless_nat_eq_int_zless)
  then have "?fvs ! k \<in> set ?fvs" by simp
  then obtain pos x y uv where fv: "?fvs ! k = cornerVertex pos (?n x) (?n y) uv"
    using flatVerticesOf_normalized by blast
  have "[normals (packed ?fvs) ! (3 * k), normals (packed ?fvs) ! (3 * k + 1),
         normals (packed ?fvs) ! (3 * k + 2)] = [fst (?n x), fst (snd (?n x)), snd (snd (?n x))]"
    using packed_normal_nth(1) [OF k] by (simp only: fv cornerVertex_nor_tan)
  then have n: "(normals (packed ?fvs) ! (3 * k), normals (packed ?fvs) ! (3 * k + 1),
            normals (packed ?fvs) ! (3 * k + 2)) = ?n x"
    by simp
  have "[tangents (packed ?fvs) ! (3 * k), tangents (packed ?fvs) ! (3 * k + 1),
         tangents (packed ?fvs) ! (3 * k + 2)] = [fst (?n y), fst (snd (?n y)), snd (snd (?n y))]"
    using packed_normal_nth(2) [OF k] by (simp only: fv cornerVertex_nor_tan)
  then have t: "(tangents (packed ?fvs) ! (3 * k), tangents (packed ?fvs) ! (3 * k + 1),
            tangents (packed ?fvs) ! (3 * k + 2)) = ?n y"
    by simp
  have a: "m4_length (normals (packed ?fvs) ! (3 * k), normals (packed ?fvs) ! (3 * k + 1),
                      normals (packed ?fvs) ! (3 * k + 2)) = 1
           \<or> (normals (packed ?fvs) ! (3 * k), normals (packed ?fvs) ! (3 * k + 1),
               normals (packed ?fvs) ! (3 * k + 2)) = fallback"
    unfolding n by (rule normalize_spec_unit_or_fallback)
  have b: "m4_length (tangents (packed ?fvs) ! (3 * k), tangents (packed ?fvs) ! (3 * k + 1),
                      tangents (packed ?fvs) ! (3 * k + 2)) = 1
           \<or> (tangents (packed ?fvs) ! (3 * k), tangents (packed ?fvs) ! (3 * k + 1),
               tangents (packed ?fvs) ! (3 * k + 2)) = fallback"
    unfolding t by (rule normalize_spec_unit_or_fallback)
  have e: "\<exists>d. CreateSurfaceData (normalize_spec fallback) uCount vCount = Some d
               \<and> (m4_length (normals d ! (3 * k), normals d ! (3 * k + 1), normals d ! (3 * k + 2)) = 1
                    \<or> (normals d ! (3 * k), normals d ! (3 * k + 1), normals d ! (3 * k + 2)) = fallback)
               \<and> (m4_length (tangents d ! (3 * k), tangents d ! (3 * k + 1), tangents d ! (3 * k + 2)) = 1
                    \<or> (tangents d ! (3 * k), tangents d ! (3 * k + 1), tangents d ! (3 * k + 2))
                         = fallback)"
    by (rule exI [of _ "packed ?fvs"]) (intro conjI d a b)
  have z: "normalize_spec fallback (0, 0, 0) = fallback"
    by (simp add: normalize_spec_def m4_length_def)
  show ?thesis
    by (intro conjI e z)
qed

theorem C7_unit_normals_and_tangents_witness:
  "(1::int) \<le> 1 \<and> (1::int) \<le> 1 \<and> int 5 < 6 * 1 * 1
   \<and> (\<exists>d. CreateSurfaceData (normalize_spec (0, 0, 1)) 1 1 = Some d
          \<and> (m4_length (normals d ! 15, normals d ! 16, normals d ! 17) = 1
               \<or> (normals d ! 15, normals d ! 16, normals d ! 17) = (0, 0, 1))
          \<and> (m4_length (tangents d ! 15, tangents d ! 16, tangents d ! 17) = 1
               \<or> (tangents d ! 15, tangents d ! 16, tangents d ! 17) = (0, 0, 1)))
   \<and> normalize_spec (0, 0, 1) (0, 0, 0) = (0, 0, 1)"
  using C7_unit_normals_and_tangents [of 1 1 5 "(0, 0, 1)"] by simp

subsection \<open>C8: degenerate triangles\<close>

text \<open>
  C8. \<^verbatim>\<open>computeFaceNormalAndArea\<close> is a total function of three points. When the area
  of the triangle, half the length of the cross product of \<open>p1 - p0\<close> and \<open>p2 - p0\<close>, is below \<open>1 / 10 ^ 14\<close> it returns the normal \<open>(0, 0, 1)\<close>
  with area \<open>0\<close>; otherwise it returns the normalised cross product and the area itself.
  A face of the first kind leaves the accumulated normals as they were.
\<close>

theorem C8_degenerate_triangle:
  "computeFaceNormalAndArea normalizeV p0 p1 p2
     = (if 0.5 * m4_length (m4_cross (m4_subtractVectors p1 p0) (m4_subtractVectors p2 p0))
             < 1 / 10 ^ 14
        then \<lparr>normal = (0, 0, 1), area = 0\<rparr>
        else \<lparr>normal = normalizeV (m4_cross (m4_subtractVectors p1 p0) (m4_subtractVectors p2 p0)),
              area = 0.5 * m4_length (m4_cross (m4_subtractVectors p1 p0)
                                        (m4_subtractVectors p2 p0))\<rparr>)
   \<and> (0.5 * m4_length (m4_cross (m4_subtractVectors (flatGrid ! nat iB) (flatGrid ! nat iA))
                          (m4_subtractVectors (flatGrid ! nat iC) (flatGrid ! nat iA)))
          < 1 / 10 ^ 14
        \<and> 0 \<le> iA \<and> iA < int (length flatGrid) \<and> 0 \<le> iB \<and> iB < int (length flatGrid)
        \<and> 0 \<le> iC \<and> iC < int (length flatGrid) \<and> length accumNormals = length flatGrid
      \<longrightarrow> accumFace normalizeV flatGrid accumNormals (iA, iB, iC) = Some accumNormals)"
proof -
  have a: "computeFaceNormalAndArea normalizeV q0 q1 q2
     = (if 0.5 * m4_length (m4_cross (m4_subtractVectors q1 q0) (m4_subtractVectors q2 q0))
             < 1 / 10 ^ 14
        then \<lparr>normal = (0, 0, 1), area = 0\<rparr>
        else \<lparr>normal = normalizeV (m4_cross (m4_subtractVectors q1 q0) (m4_subtractVectors q2 q0)),
              area = 0.5 * m4_length (m4_cross (m4_subtractVectors q1 q0)
                                        (m4_subtractVectors q2 q0))\<rparr>)" for q0 q1 q2
    by (simp add: computeFaceNormalAndArea_def Let_def mult.commute)
  have b: "accumFace normalizeV flatGrid accumNormals (iA, iB, iC) = Some accumNormals"
    if "0.5 * m4_length (m4_cross (m4_subtractVectors (flatGrid ! nat iB) (flatGrid ! nat iA))
                          (m4_subtractVectors (flatGrid ! nat iC) (flatGrid ! nat iA)))
          < 1 / 10 ^ 14"
      "0 \<le> iA" "iA < int (length flatGrid)" "0 \<le> iB" "iB < int (length flatGrid)"
      "0 \<le> iC" "iC < int (length flatGrid)" "length accumNormals = length flatGrid"
    using that
    by (simp add: accumFace_def js_get_Some a accumCorner_zero_area)
  from a [of p0 p1 p2] b show ?thesis by blast
qed

theorem C8_degenerate_triangle_witness:
  "computeFaceNormalAndArea id (0, 0, 0) (1, 0, 0) (2, 0, 0) = \<lparr>normal = (0, 0, 1), area = 0\<rparr>
   \<and> computeFaceNormalAndArea id (0, 0, 0) (1, 0, 0) (0, 1, 0) = \<lparr>normal = (0, 0, 1), area = 1 / 2\<rparr>
   \<and> accumFace id [(0, 0, 0), (1, 0, 0), (2, 0, 0)] [(1, 2, 3), (4, 5, 6), (7, 8, 9)] (0, 1, 2)
       = Some [(1, 2, 3), (4, 5, 6), (7, 8, 9)]"
proof -
  have "computeFaceNormalAndArea id (0, 0, 0) (1, 0, 0) (2, 0, 0) = \<lparr>normal = (0, 0, 1), area = 0\<rparr>"
    using C8_degenerate_triangle [of id "(0, 0, 0)" "(1, 0, 0)" "(2, 0, 0)"]
    by (simp add: m4_subtractVectors_def m4_cross_def m4_length_def)
  moreover have "computeFaceNormalAndArea id (0, 0, 0) (1, 0, 0) (0, 1, 0)
                   = \<lparr>normal = (0, 0, 1), area = 1 / 2\<rparr>"
    using C8_degenerate_triangle [of id "(0, 0, 0)" "(1, 0, 0)" "(0, 1, 0)"]
    by (simp add: m4_subtractVectors_def m4_cross_def m4_length_def)
  moreover have "accumFace id [(0, 0, 0), (1, 0, 0), (2, 0, 0)] [(1, 2, 3), (4, 5, 6), (7, 8, 9)]
                   (0, 1, 2) = Some [(1, 2, 3), (4, 5, 6), (7, 8, 9)]"
    using C8_degenerate_triangle [where flatGrid = "[(0, 0, 0), (1, 0, 0), (2, 0, 0)]"
        and iA = 0 and iB = 1 and iC = 2 and accumNormals = "[(1, 2, 3), (4, 5, 6), (7, 8, 9)]"
        and normalizeV = id]
    by (simp add: m4_subtractVectors_def m4_cross_def m4_length_def)
  ultimately show ?thesis by blast
qed

subsection \<open>C9: texture coordinates\<close>

text \<open>
  C9. At a resolution with \<open>uCount \<ge> 1\<close> and \<open>vCount \<ge> 1\<close>, for every lattice coordinate
  \<open>(iv, iu)\<close> \<^verbatim>\<open>paramToUV\<close> returns
  \<open>(uAngles[iu] / (2 * pi), (vAngles[iv] + pi / 2) / pi)\<close>, and every number of the texture
  coordinate array that the generator returns lies between \<open>0\<close> and \<open>1\<close>, bounds
  included.
\<close>

theorem C9_uv_mapper:
  assumes "1 \<le> uCount" "1 \<le> vCount" "0 \<le> iv" "iv \<le> vCount" "0 \<le> iu" "iu \<le> uCount"
  shows "paramToUV (vAnglesOf vCount) (uAnglesOf uCount) iv iu
           = Some (uAnglesOf uCount ! nat iu / (2 * pi), (vAnglesOf vCount ! nat iv + pi / 2) / pi)
         \<and> (\<exists>d. CreateSurfaceData normalizeV uCount vCount = Some d
                \<and> (\<forall>t\<in>set (texcoords d). 0 \<le> t \<and> t \<le> 1))"
proof -
  have "paramToUV (vAnglesOf vCount) (uAnglesOf uCount) iv iu
          = Some (uAnglesOf uCount ! nat iu / (2 * pi),
                  (vAnglesOf vCount ! nat iv + pi * 0.5) / pi)"
    using assms by (intro paramToUV_Some) (simp_all add: length_vAnglesOf length_uAnglesOf)
  then have a: "paramToUV (vAnglesOf vCount) (uAnglesOf uCount) iv iu
          = Some (uAnglesOf uCount ! nat iu / (2 * pi), (vAnglesOf vCount ! nat iv + pi / 2) / pi)"
    by simp
  obtain acc where
    d: "CreateSurfaceData normalizeV uCount vCount
          = Some (packed (flatVerticesOf normalizeV uCount vCount acc))"
    using CreateSurfaceData_char [OF assms(1,2), of normalizeV] by auto
  have "\<forall>t\<in>set (texcoords (packed (flatVerticesOf normalizeV uCount vCount acc))). 0 \<le> t \<and> t \<le> 1"
    using flatVerticesOf_uv_range [OF assms(1,2), of _ normalizeV acc]
    by (auto simp: texcoords_packed)
  with a d show ?thesis by blast
qed

theorem C9_uv_mapper_witness:
  "(1::int) \<le> 4 \<and> (1::int) \<le> 2 \<and> (0::int) \<le> 1 \<and> (1::int) \<le> 2 \<and> (0::int) \<le> 3 \<and> (3::int) \<le> 4
   \<and> paramToUV (vAnglesOf 2) (uAnglesOf 4) 1 3
       = Some (uAnglesOf 4 ! 3 / (2 * pi), (vAnglesOf 2 ! 1 + pi / 2) / pi)
   \<and> (\<exists>d. CreateSurfaceData id 4 2 = Some d \<and> \<not> (\<exists>t\<in>set (texcoords d). t < 0 \<or> 1 < t))"
  using C9_uv_mapper [of 4 2 1 3 id] by (simp add: not_less)

subsection \<open>C10: the marker lies on the surface\<close>

text \<open>
  C10. \<^verbatim>\<open>paramTo3D\<close> and the closure that fills the vertex grid are the same function
  of the two angles, so the grid of the generator is the table of \<^verbatim>\<open>paramTo3D\<close> at the
  sampled angles, and the centre \<^verbatim>\<open>paramTo3D(paramU, paramV)\<close> of the marker is a point of
  the sampled surface.
\<close>

theorem C10_marker_on_surface:
  "gridVertex v u = paramTo3D u v
   \<and> vertexGridOf vAngles uAngles = map (\<lambda>vRad. map (\<lambda>uRad. paramTo3D uRad vRad) uAngles) vAngles"
  by (simp add: gridVertex_def paramTo3D_def vertexGridOf_def)

end
